theory Spec2Isabelle
  imports Main "HOL-Library.Word"
begin

section \<open>Command-line codec (argvToCommandLine)\<close>

text \<open>
  The characters the encoder looks at.  A C \<^verbatim>\<open>char\<close> is a byte, as \<^typ>\<open>char\<close> is.
\<close>

abbreviation NUL :: char where "NUL \<equiv> CHR 0x00"
abbreviation TAB :: char where "TAB \<equiv> CHR 0x09"
abbreviation SPC :: char where "SPC \<equiv> CHR 0x20"
abbreviation DQ :: char where "DQ \<equiv> CHR 0x22"
abbreviation BSL :: char where "BSL \<equiv> CHR 0x5C"

text \<open>
  \<^verbatim>\<open>argv[argIndex].c_str()\<close>: the encoder reads every argument through a C string
  pointer, with \<^verbatim>\<open>strchr\<close> and a loop that stops at the first NUL byte.  What it sees of
  a \<^verbatim>\<open>std::string\<close> is therefore the part before the first NUL.
\<close>

definition c_str :: "string \<Rightarrow> string" where
  "c_str s = takeWhile (\<lambda>c. c \<noteq> NUL) s"

text \<open>
  \<^verbatim>\<open>bsCount\<close> is a C \<^verbatim>\<open>int\<close>, 32 bits wide.  Signed overflow is undefined in C++; in
  the model a computation on \<^verbatim>\<open>bsCount\<close> whose value would exceed \<open>INT_MAX\<close> has no
  result.  This happens in \<^verbatim>\<open>bsCount++\<close>, in \<^verbatim>\<open>bsCount * 2 + 1\<close> before a double quote and
  in \<^verbatim>\<open>bsCount * 2\<close> before the closing quote, from \<open>2^30\<close> backslashes in a row on.
\<close>

definition INT_MAX :: nat where
  "INT_MAX = 2147483647"

text \<open>
  The inner loop \<^verbatim>\<open>for (const char *p = arg; *p != '\0'; ++p)\<close> with its two pieces of
  state, \<^verbatim>\<open>bsCount\<close> and \<^verbatim>\<open>result\<close>.
\<close>

fun arg_loop :: "string \<Rightarrow> nat \<Rightarrow> string \<Rightarrow> (string \<times> nat) option" where
  "arg_loop [] bsCount result = Some (result, bsCount)"
| "arg_loop (p # ps) bsCount result =
     (if p = BSL then
        (if bsCount + 1 > INT_MAX then None else arg_loop ps (bsCount + 1) result)
      else if p = DQ then
        (if bsCount * 2 + 1 > INT_MAX then None
         else arg_loop ps 0 (result @ replicate (bsCount * 2 + 1) BSL @ [DQ]))
      else
        arg_loop ps 0 (result @ replicate bsCount BSL @ [p]))"

text \<open>The test \<^verbatim>\<open>strchr(arg, ' ') != NULL || strchr(arg, '\t') != NULL || *arg == '\0'\<close>.\<close>

definition quote_needed :: "string \<Rightarrow> bool" where
  "quote_needed arg = (SPC \<in> set arg \<or> TAB \<in> set arg \<or> arg = [])"

text \<open>One pass of the outer loop body, for the argument at index \<open>argIndex\<close>.\<close>

definition encode_one :: "nat \<Rightarrow> string \<Rightarrow> string \<Rightarrow> string option" where
  "encode_one argIndex a result =
     (let result1 = (if argIndex > 0 then result @ [SPC] else result);
          arg = c_str a;
          quote = quote_needed arg;
          result2 = (if quote then result1 @ [DQ] else result1)
      in case arg_loop arg 0 result2 of
           None \<Rightarrow> None
         | Some (result3, bsCount) \<Rightarrow>
             (if quote then
                (if bsCount * 2 > INT_MAX then None
                 else Some (result3 @ replicate (bsCount * 2) BSL @ [DQ]))
              else Some (result3 @ replicate bsCount BSL)))"

fun argv_loop :: "string list \<Rightarrow> nat \<Rightarrow> string \<Rightarrow> string option" where
  "argv_loop [] argIndex result = Some result"
| "argv_loop (a # as) argIndex result =
     (case encode_one argIndex a result of
        None \<Rightarrow> None
      | Some result' \<Rightarrow> argv_loop as (argIndex + 1) result')"

definition argvToCommandLine :: "string list \<Rightarrow> string option" where
  "argvToCommandLine argv = argv_loop argv 0 []"

subsection \<open>The platform's argument splitting\<close>

text \<open>
  Modelled from the spec: the decoder is the platform's own argument-splitting
  algorithm (CommandLineToArgvW), which is not part of the repository; the source only
  refers to its documentation.  The rules, as the spec and that documentation give them,
  for the arguments after the program name:
  arguments are delimited by spaces and tabs outside double quotes;
  \<open>2n\<close> backslashes followed by a double quote give \<open>n\<close> backslashes and the quote
  opens or closes a quoted part; \<open>2n+1\<close> backslashes followed by a double quote give
  \<open>n\<close> backslashes and a literal double quote; backslashes not followed by a double
  quote are literal.

  \<open>split_go s inArg inQuotes bs cur\<close> reads \<open>s\<close>; \<open>inArg\<close> says that an argument has
  been started, \<open>inQuotes\<close> that a quoted part is open, \<open>bs\<close> counts the backslashes
  read and not yet placed, \<open>cur\<close> is the argument built so far.
\<close>

fun split_go :: "string \<Rightarrow> bool \<Rightarrow> bool \<Rightarrow> nat \<Rightarrow> string \<Rightarrow> string list" where
  "split_go [] inArg inQuotes bs cur =
     (if inArg then [cur @ replicate bs BSL] else [])"
| "split_go (c # cs) inArg inQuotes bs cur =
     (if c = BSL then split_go cs True inQuotes (bs + 1) cur
      else if c = DQ then
        (if even bs then split_go cs True (\<not> inQuotes) 0 (cur @ replicate (bs div 2) BSL)
         else split_go cs True inQuotes 0 (cur @ replicate (bs div 2) BSL @ [DQ]))
      else if (c = SPC \<or> c = TAB) \<and> \<not> inQuotes then
        (if inArg then (cur @ replicate bs BSL) # split_go cs False False 0 []
         else split_go cs False False 0 [])
      else split_go cs True inQuotes 0 (cur @ replicate bs BSL @ [c]))"

definition commandLineToArgv :: "string \<Rightarrow> string list" where
  "commandLineToArgv s = split_go s False False 0 []"


subsection \<open>The encoder as the specification words it\<close>

text \<open>
  The second definition for the refinement: the encoder in the words of the
  specification.  An argument is quoted when it contains a space, a tab, or is empty.
  The text of an argument is read run by run: a run of backslashes followed by a double
  quote is doubled and the quote gets one more backslash; a run at the end of a quoted
  argument is doubled; every other run is copied, as is every other character.
\<close>

definition spec_wants_quote :: "string \<Rightarrow> bool" where
  "spec_wants_quote a = (SPC \<in> set a \<or> TAB \<in> set a \<or> a = [])"

function spec_escape :: "bool \<Rightarrow> string \<Rightarrow> string" where
  "spec_escape quoted s =
     (let run = takeWhile (\<lambda>c. c = BSL) s;
          rest = dropWhile (\<lambda>c. c = BSL) s
      in case rest of
           [] \<Rightarrow> (if quoted then run @ run else run)
         | c # cs \<Rightarrow>
             (if c = DQ then run @ run @ [BSL, DQ] else run @ [c]) @ spec_escape quoted cs)"
  by pat_completeness auto
termination
proof (relation "measure (\<lambda>(quoted, s). length s)")
  show "wf (measure (\<lambda>(quoted, s). length s))" by simp
next
  fix quoted :: bool and s run rest :: string and c cs
  assume "rest = dropWhile (\<lambda>c. c = BSL) s" and "rest = c # cs"
  then have "Suc (length cs) = length (dropWhile (\<lambda>c. c = BSL) s)" by (metis length_Cons)
  also have "\<dots> \<le> length s" by (rule length_dropWhile_le)
  finally show "((quoted, cs), (quoted, s)) \<in> measure (\<lambda>(quoted, s). length s)" by simp
qed

declare spec_escape.simps [simp del]

definition spec_arg :: "string \<Rightarrow> string" where
  "spec_arg a =
     (if spec_wants_quote a then [DQ] @ spec_escape True a @ [DQ] else spec_escape False a)"

fun join_spaces :: "string list \<Rightarrow> string" where
  "join_spaces [] = []"
| "join_spaces [a] = a"
| "join_spaces (a # b # bs) = a @ SPC # join_spaces (b # bs)"

definition spec_encode :: "string list \<Rightarrow> string" where
  "spec_encode argv = join_spaces (map spec_arg argv)"

subsection \<open>Auxiliary notions for the proofs about the codec\<close>

text \<open>
  The inner loop with a counter that cannot overflow.  It computes what \<open>arg_loop\<close>
  computes as long as the counter of \<open>arg_loop\<close> stays in range.
\<close>

fun unbounded_loop :: "string \<Rightarrow> nat \<Rightarrow> string \<Rightarrow> string \<times> nat" where
  "unbounded_loop [] k res = (res, k)"
| "unbounded_loop (p # ps) k res =
     (if p = BSL then unbounded_loop ps (k + 1) res
      else if p = DQ then unbounded_loop ps 0 (res @ replicate (k * 2 + 1) BSL @ [DQ])
      else unbounded_loop ps 0 (res @ replicate k BSL @ [p]))"

text \<open>
  The output of the inner loop for the rest \<open>p\<close> of an argument, entered with \<open>k\<close>
  backslashes counted, together with the final flush of the counted backslashes:
  \<open>m = 2\<close> for a quoted argument, \<open>m = 1\<close> for an unquoted one.
\<close>

definition flushed :: "string \<Rightarrow> nat \<Rightarrow> nat \<Rightarrow> string" where
  "flushed p k m =
     fst (unbounded_loop p k []) @ replicate (m * snd (unbounded_loop p k [])) BSL"

text \<open>The text one argument contributes, without the separator.\<close>

definition encoded_arg :: "string \<Rightarrow> string" where
  "encoded_arg a =
     (if quote_needed (c_str a) then DQ # flushed (c_str a) 0 2 @ [DQ]
      else flushed (c_str a) 0 1)"

text \<open>What follows an encoded argument: the end of the string, or the separating space.\<close>

definition arg_end :: "string \<Rightarrow> bool" where
  "arg_end rest = (rest = [] \<or> hd rest = SPC)"

section \<open>Character-set conversion helpers\<close>

text \<open>
  \<^verbatim>\<open>size_t\<close> is 32 or 64 bits wide, depending on the build; the width is the
  parameter \<open>w\<close>, and the arithmetic on sizes is written out modulo \<open>2 ^ w\<close>.
  \<^verbatim>\<open>(size_t)-1\<close> is the largest value.  \<^verbatim>\<open>wchar_t\<close> is a 16-bit code unit.

  The C library's \<^verbatim>\<open>mbstowcs\<close> and \<^verbatim>\<open>wcstombs\<close> are not part of the repository; they
  are parameters: given the source text and the capacity of the destination, such a
  function returns its \<^verbatim>\<open>size_t\<close> result and what it has written to the destination
  before any terminator.  An \<^verbatim>\<open>assert\<close> is taken as compiled in; where it fails the
  helper has no result and the run of its caller ends with an abort.
\<close>

type_synonym wchar = "16 word"
type_synonym wstring = "wchar list"

definition size_t_minus_one :: "nat \<Rightarrow> nat" where
  "size_t_minus_one w = 2 ^ w - 1"

datatype failure = AssertionFailed

text \<open>A heap buffer: the number of elements allocated, and its contents up to the terminator.\<close>

record 'c heap_buf =
  capacity :: nat
  contents :: "'c list"

definition heapMbsToWcs ::
  "nat \<Rightarrow> (string \<Rightarrow> nat \<Rightarrow> nat \<times> wstring) \<Rightarrow> string \<Rightarrow> failure + wchar heap_buf" where
  "heapMbsToWcs w mbstowcs text =
     (let maxLen = (length text * 2 + 1) mod 2 ^ w;
          (len, ret) = mbstowcs text maxLen
      in if len \<noteq> size_t_minus_one w \<and> len < maxLen
         then Inr \<lparr>capacity = maxLen, contents = ret\<rparr>
         else Inl AssertionFailed)"

definition heapWcsToMbs ::
  "nat \<Rightarrow> (wstring \<Rightarrow> nat \<Rightarrow> nat \<times> string) \<Rightarrow> wstring \<Rightarrow> char heap_buf option" where
  "heapWcsToMbs w wcstombs text =
     (let maxLen = (length text * 3 + 1) mod 2 ^ w;
          (len, ret) = wcstombs text maxLen
      in if len = size_t_minus_one w \<or> len \<ge> maxLen
         then None
         else Some \<lparr>capacity = maxLen, contents = ret\<rparr>)"

definition wcsToMbs :: "nat \<Rightarrow> (wstring \<Rightarrow> nat \<Rightarrow> nat \<times> string) \<Rightarrow> wstring \<Rightarrow> string" where
  "wcsToMbs w wcstombs text =
     (case heapWcsToMbs w wcstombs text of
        Some ptr \<Rightarrow> c_str (contents ptr)
      | None \<Rightarrow> [])"


section \<open>The process and its surroundings\<close>

text \<open>
  The program talks to the terminal, the back end and the operating system.  Every call
  that acts on them is an event of a trace, in the order of the calls; every answer they
  give is an input of the model.  \<^verbatim>\<open>printf\<close> and \<^verbatim>\<open>fprintf\<close> are recorded with their
  stream, format and arguments.
\<close>

record termios =
  c_iflag :: "32 word"
  c_oflag :: "32 word"
  c_cflag :: "32 word"
  c_lflag :: "32 word"
  c_cc :: "8 word list"

record winsize =
  ws_row :: "16 word"
  ws_col :: "16 word"
  ws_xpixel :: "16 word"
  ws_ypixel :: "16 word"

datatype stream = Stdout | Stderr

datatype printf_arg = Str string | Num nat

datatype handle = Conin | Conout | Conerr | ChildProcess

datatype handler = InputPump | OutputPump | ErrorPump

datatype event =
    Setlocale
  | Execvp string "string list"
  | Perror string
  | Printf stream string "printf_arg list"
  | Putchar char
  | Fflush stream
  | DumpVersion
  | NewWakeupFd
  | Tcsetattr nat termios
  | SyncWinEnv
  | SetEnvironmentVariableW wstring "wstring option"
  | ConfigNew "32 word"
  | ConfigSetInitialSize "16 word" "16 word"
  | ConfigSetMouseModeForce
  | WinptyOpen
  | ConfigFree
  | ErrorFree
  | CreateFileW handle
  | FreeLibrary
  | SpawnConfigNew wstring
  | WinptySpawn
  | SpawnConfigFree
  | SigactionWinch
  | StartPump handler
  | SelectWakeup
  | WakeupReset
  | SetSize "16 word" "16 word"
  | WinptyFree
  | ShutdownPump handler
  | DeletePump handler
  | CloseHandle handle
  | GetExitCodeProcess

text \<open>
  How a run ends: \<^verbatim>\<open>exit(n)\<close>, \<^verbatim>\<open>abort()\<close> or a failed \<^verbatim>\<open>assert\<close>, \<^verbatim>\<open>return\<close>
  from \<^verbatim>\<open>main\<close>, a successful \<^verbatim>\<open>execvp\<close> (the process image is replaced), or a
  main loop that is still waiting when the wakeups given to the model are used up.
\<close>

datatype outcome =
    Exit nat
  | Abort
  | Return "32 word"
  | Replaced string "string list"
  | Waiting

text \<open>
  The terminal side of the world.  \<open>w_tty fd\<close> is the answer of \<^verbatim>\<open>isatty(fd)\<close>;
  \<open>w_dev fd\<close> is the device the descriptor is open on (the three standard streams
  usually share one) and \<open>w_attrs\<close> holds the attributes of each device.  A call of
  \<^verbatim>\<open>tcgetattr\<close> or \<^verbatim>\<open>tcsetattr\<close> may fail: \<open>w_fail n\<close> says whether the \<open>n\<close>-th such
  call of the run does, and \<open>w_calls\<close> counts them.
\<close>

record world =
  w_tty :: "nat \<Rightarrow> bool"
  w_dev :: "nat \<Rightarrow> nat"
  w_attrs :: "nat \<Rightarrow> termios"
  w_fail :: "nat \<Rightarrow> bool"
  w_calls :: nat
  w_trace :: "event list"

datatype 'a step = Done outcome world | Next 'a world

definition emit :: "event list \<Rightarrow> world \<Rightarrow> world" where
  "emit es w = w\<lparr>w_trace := w_trace w @ es\<rparr>"

definition tcgetattr :: "nat \<Rightarrow> world \<Rightarrow> termios option \<times> world" where
  "tcgetattr fd w =
     (if w_fail w (w_calls w) then (None, w\<lparr>w_calls := w_calls w + 1\<rparr>)
      else (Some (w_attrs w (w_dev w fd)), w\<lparr>w_calls := w_calls w + 1\<rparr>))"

definition tcsetattr :: "nat \<Rightarrow> termios \<Rightarrow> world \<Rightarrow> bool \<times> world" where
  "tcsetattr fd t w =
     (let w1 = emit [Tcsetattr fd t] (w\<lparr>w_calls := w_calls w + 1\<rparr>)
      in if w_fail w (w_calls w) then (False, w1)
         else (True, w1\<lparr>w_attrs := (w_attrs w1)(w_dev w1 fd := t)\<rparr>))"

section \<open>Terminal mode controller\<close>

text \<open>
  The flag and index macros of \<^verbatim>\<open>termios.h\<close> are not part of the repository; they are
  parameters.
\<close>

record termios_macros =
  m_ECHO :: "32 word"
  m_ICANON :: "32 word"
  m_IEXTEN :: "32 word"
  m_ISIG :: "32 word"
  m_BRKINT :: "32 word"
  m_ICRNL :: "32 word"
  m_INPCK :: "32 word"
  m_ISTRIP :: "32 word"
  m_IXON :: "32 word"
  m_CSIZE :: "32 word"
  m_PARENB :: "32 word"
  m_CS8 :: "32 word"
  m_OPOST :: "32 word"
  m_VMIN :: nat
  m_VTIME :: nat

text \<open>
  \<^verbatim>\<open>struct SavedTermiosMode\<close>.  The source never assigns \<^verbatim>\<open>count\<close>, and it assigns
  \<^verbatim>\<open>mode[i]\<close> only for a stream it captures: \<open>None\<close> is a field that was never written.
\<close>

record SavedTermiosMode =
  count :: "int option"
  valid :: "bool list"
  mode :: "termios option list"

definition kNames :: "string list" where
  "kNames = [''stdin'', ''stdout'', ''stderr'']"

text \<open>The first loop of \<^verbatim>\<open>setRawTerminalMode\<close>, over the streams \<open>i = 0, 1, 2\<close>.\<close>

fun capture_loop :: "bool \<Rightarrow> nat list \<Rightarrow> SavedTermiosMode \<Rightarrow> world \<Rightarrow> SavedTermiosMode step" where
  "capture_loop allowNonTtys [] ret w = Next ret w"
| "capture_loop allowNonTtys (i # is) ret w =
     (if \<not> valid ret ! i then capture_loop allowNonTtys is ret w
      else if \<not> w_tty w i then
        (let ret1 = ret\<lparr>valid := (valid ret)[i := False]\<rparr>
         in if \<not> allowNonTtys then
              Done (Exit 1) (emit [Printf Stderr (''%s is not a tty'' @ [CHR 0x0A]) [Str (kNames ! i)]] w)
            else capture_loop allowNonTtys is ret1 w)
      else
        (let ret1 = ret\<lparr>valid := (valid ret)[i := True]\<rparr>
         in case tcgetattr i w of
              (None, w1) \<Rightarrow> Done (Exit 1) (emit [Perror ''tcgetattr failed''] w1)
            | (Some t, w1) \<Rightarrow>
                capture_loop allowNonTtys is (ret1\<lparr>mode := (mode ret1)[i := Some t]\<rparr>) w1))"

definition raw_input_mode :: "termios_macros \<Rightarrow> termios \<Rightarrow> termios" where
  "raw_input_mode m buf =
     buf\<lparr>c_lflag := and (c_lflag buf) (not (or (or (or (m_ECHO m) (m_ICANON m)) (m_IEXTEN m)) (m_ISIG m))),
         c_iflag := and (c_iflag buf)
           (not (or (or (or (or (m_BRKINT m) (m_ICRNL m)) (m_INPCK m)) (m_ISTRIP m)) (m_IXON m))),
         c_cflag := or (and (c_cflag buf) (not (or (m_CSIZE m) (m_PARENB m)))) (m_CS8 m),
         c_cc := (c_cc buf)[m_VMIN m := 1, m_VTIME m := 0]\<rparr>"

definition raw_output_mode :: "termios_macros \<Rightarrow> termios \<Rightarrow> termios" where
  "raw_output_mode m buf =
     buf\<lparr>c_cflag := or (and (c_cflag buf) (not (or (m_CSIZE m) (m_PARENB m)))) (m_CS8 m),
         c_oflag := and (c_oflag buf) (not (m_OPOST m))\<rparr>"

text \<open>The block \<^verbatim>\<open>if (ret.valid[STDIN_FILENO])\<close>.\<close>

definition set_raw_input :: "termios_macros \<Rightarrow> SavedTermiosMode \<Rightarrow> world \<Rightarrow> unit step" where
  "set_raw_input m ret w =
     (if valid ret ! 0 then
        (case tcgetattr 0 w of
           (None, w1) \<Rightarrow> Done (Exit 1) (emit [Perror ''tcgetattr failed''] w1)
         | (Some buf, w1) \<Rightarrow>
             (case tcsetattr 0 (raw_input_mode m buf) w1 of
                (False, w2) \<Rightarrow>
                  Done (Exit 1) (emit [Printf Stderr (''tcsetattr failed'' @ [CHR 0x0A]) []] w2)
              | (True, w2) \<Rightarrow> Next () w2))
      else Next () w)"

text \<open>The loop over \<^verbatim>\<open>STDOUT_FILENO\<close> and \<^verbatim>\<open>STDERR_FILENO\<close>.\<close>

fun set_raw_outputs :: "termios_macros \<Rightarrow> nat list \<Rightarrow> SavedTermiosMode \<Rightarrow> world \<Rightarrow> unit step" where
  "set_raw_outputs m [] ret w = Next () w"
| "set_raw_outputs m (i # is) ret w =
     (if \<not> valid ret ! i then set_raw_outputs m is ret w
      else
        (case tcgetattr i w of
           (None, w1) \<Rightarrow> Done (Exit 1) (emit [Perror ''tcgetattr failed''] w1)
         | (Some buf, w1) \<Rightarrow>
             (case tcsetattr i (raw_output_mode m buf) w1 of
                (False, w2) \<Rightarrow>
                  Done (Exit 1) (emit [Printf Stderr (''tcsetattr failed'' @ [CHR 0x0A]) []] w2)
              | (True, w2) \<Rightarrow> set_raw_outputs m is ret w2)))"

definition setRawTerminalMode ::
  "termios_macros \<Rightarrow> bool \<Rightarrow> bool \<Rightarrow> bool \<Rightarrow> world \<Rightarrow> SavedTermiosMode step" where
  "setRawTerminalMode m allowNonTtys setStdout setStderr w =
     (let ret = \<lparr>count = None, valid = [True, setStdout, setStderr], mode = [None, None, None]\<rparr>
      in case capture_loop allowNonTtys [0, 1, 2] ret w of
           Done out w1 \<Rightarrow> Done out w1
         | Next ret1 w1 \<Rightarrow>
             (case set_raw_input m ret1 w1 of
                Done out w2 \<Rightarrow> Done out w2
              | Next u w2 \<Rightarrow>
                  (case set_raw_outputs m [1, 2] ret1 w2 of
                     Done out w3 \<Rightarrow> Done out w3
                   | Next u w3 \<Rightarrow> Next ret1 w3)))"

text \<open>
  The loop of \<^verbatim>\<open>restoreTerminalMode\<close>.  It passes \<^verbatim>\<open>&original.mode[i]\<close> to
  \<^verbatim>\<open>tcsetattr\<close>; for a field that was never written the attributes passed are whatever
  the memory holds, given by \<open>junk\<close>.
\<close>

fun restore_loop :: "termios \<Rightarrow> nat list \<Rightarrow> SavedTermiosMode \<Rightarrow> world \<Rightarrow> unit step" where
  "restore_loop junk [] original w = Next () w"
| "restore_loop junk (i # is) original w =
     (if \<not> valid original ! i then restore_loop junk is original w
      else
        (case tcsetattr i (case mode original ! i of Some t \<Rightarrow> t | None \<Rightarrow> junk) w of
           (False, w1) \<Rightarrow> Done (Exit 1) (emit [Perror ''error restoring terminal mode''] w1)
         | (True, w1) \<Rightarrow> restore_loop junk is original w1))"

definition restoreTerminalMode :: "termios \<Rightarrow> SavedTermiosMode \<Rightarrow> world \<Rightarrow> unit step" where
  "restoreTerminalMode junk original w = restore_loop junk [0, 1, 2] original w"


section \<open>Inputs of a run\<close>

text \<open>
  \<^verbatim>\<open>struct Arguments\<close>, and everything a run reads from outside: the argument vector,
  the answers of the operating system and of the back end, and the constants of headers
  that are not part of the repository.
\<close>

record Arguments =
  childArgv :: "string list"
  mouseInput :: bool
  testAllowNonTtys :: bool
  testConerr :: bool
  testPlainOutput :: bool
  testColorEscapes :: bool

datatype spawn_result =
    SpawnOk
  | CreateProcessFailed "32 word"
  | SpawnInternalError wstring

text \<open>
  One return of the main loop's wait: what the geometry probe leaves in \<^verbatim>\<open>sz2\<close>, and the
  completion flags of the three pump workers as the loop reads them in that iteration.
\<close>

record wakeup =
  probe :: winsize
  in_complete :: bool
  out_complete :: bool
  err_complete :: bool

record env =
  e_argv :: "string list"
  e_size_bits :: nat
  e_mbstowcs :: "string \<Rightarrow> nat \<Rightarrow> nat \<times> wstring"
  e_wcstombs :: "wstring \<Rightarrow> nat \<Rightarrow> nat \<times> string"
  e_sprintf_hex :: "string \<Rightarrow> 32 word \<Rightarrow> string"
  e_termios :: termios_macros
  e_junk :: termios
  e_exec_ok :: bool
  e_wakeup_ok :: bool
  e_decodeUnixCtrlChar :: "char \<Rightarrow> char"
  e_stdin_reads :: "string list"
  e_getenv :: "string \<Rightarrow> string option"
  e_sync_winenv :: bool
  e_initial_probe :: "winsize option"
  e_FLAG_ALLOW_CURPROC_DESKTOP_CREATION :: "32 word"
  e_FLAG_CONERR :: "32 word"
  e_FLAG_PLAIN_OUTPUT :: "32 word"
  e_FLAG_COLOR_ESCAPES :: "32 word"
  e_config_ok :: bool
  e_open_error :: "wstring option"
  e_conin_ok :: bool
  e_conout_ok :: bool
  e_conerr_ok :: bool
  e_module_ok :: bool
  e_module_path :: wstring
  e_spawn_config_ok :: bool
  e_spawn_result :: spawn_result
  e_format_message :: "32 word \<Rightarrow> wstring option"
  e_wakeups :: "wakeup list"
  e_exit_code :: "32 word option"

text \<open>A wide string literal \<^verbatim>\<open>L"..."\<close> of ASCII characters.\<close>

definition widen :: "string \<Rightarrow> wstring" where
  "widen s = map (\<lambda>c. of_nat (of_char c)) s"

section \<open>Usage, the key dumper and the argument parser\<close>

definition usage :: "string \<Rightarrow> nat \<Rightarrow> world \<Rightarrow> 'a step" where
  "usage program exitCode w =
     Done (Exit exitCode)
       (emit [Printf Stdout (''Usage: %s [options] [--] program [args]'' @ [CHR 0x0A]) [Str program],
              Printf Stdout [CHR 0x0A] [],
              Printf Stdout (''Options:'' @ [CHR 0x0A]) [],
              Printf Stdout (''  -h, --help  Show this help message'' @ [CHR 0x0A]) [],
              Printf Stdout (''  --mouse     Enable terminal mouse input'' @ [CHR 0x0A]) [],
              Printf Stdout (''  --showkey   Dump STDIN escape sequences'' @ [CHR 0x0A]) [],
              Printf Stdout (''  --version   Show the winpty version number'' @ [CHR 0x0A]) []] w)"

text \<open>The two inner loops of \<^verbatim>\<open>debugShowKey\<close> over the bytes of one read.\<close>

definition show_chars :: "(char \<Rightarrow> char) \<Rightarrow> string \<Rightarrow> event list" where
  "show_chars decode buf =
     concat (map (\<lambda>b. let ctrl = decode b
                       in if ctrl = NUL then [Putchar b] else [Putchar (CHR 0x5E), Putchar ctrl]) buf)"

definition show_codes :: "string \<Rightarrow> event list" where
  "show_codes buf =
     concat (map (\<lambda>b. let uch = (of_char b :: nat)
                       in [Printf Stdout ([TAB] @ ''%3d %04o 0x%02x'' @ [CHR 0x0A]) [Num uch, Num uch, Num uch],
                           Fflush Stdout]) buf)"

text \<open>
  The \<^verbatim>\<open>while (true)\<close> loop of \<^verbatim>\<open>debugShowKey\<close>.  The list holds what the successive
  calls of \<^verbatim>\<open>read\<close> return, at most 128 bytes each; an empty entry is a return value
  \<open>\<le> 0\<close>.  When the list is used up the next \<^verbatim>\<open>read\<close> does not return.
\<close>

fun showkey_loop :: "(char \<Rightarrow> char) \<Rightarrow> string list \<Rightarrow> world \<Rightarrow> unit step" where
  "showkey_loop decode [] w = Done Waiting w"
| "showkey_loop decode (r # rs) w =
     (let buf = take 128 r
      in if buf = [] then Next () w
         else
           (let w1 = emit (show_chars decode buf @ show_codes buf) w
            in if hd buf = CHR 0x04 then Next () w1 else showkey_loop decode rs w1))"

definition debugShowKey :: "env \<Rightarrow> bool \<Rightarrow> world \<Rightarrow> unit step" where
  "debugShowKey e allowNonTtys w =
     (let w1 = emit [Printf Stdout ([CHR 0x0A] @ ''Press any keys -- Ctrl-D exits'' @ [CHR 0x0A, CHR 0x0A]) []] w
      in case setRawTerminalMode (e_termios e) allowNonTtys False False w1 of
           Done out w2 \<Rightarrow> Done out w2
         | Next saved w2 \<Rightarrow>
             (case showkey_loop (e_decodeUnixCtrlChar e) (e_stdin_reads e) w2 of
                Done out w3 \<Rightarrow> Done out w3
              | Next u w3 \<Rightarrow> restoreTerminalMode (e_junk e) saved w3))"

text \<open>
  The \<^verbatim>\<open>while (argi < argc)\<close> loop of \<^verbatim>\<open>parseArguments\<close>, over the arguments from
  \<^verbatim>\<open>argv[argi]\<close> on.  It returns the arguments it has not consumed.
\<close>

fun option_loop ::
  "string \<Rightarrow> string list \<Rightarrow> Arguments \<Rightarrow> bool \<Rightarrow> world \<Rightarrow> (Arguments \<times> bool \<times> string list) step" where
  "option_loop program [] out doShowKeys w = Next (out, doShowKeys, []) w"
| "option_loop program (arg # rest) out doShowKeys w =
     (if length arg \<ge> 1 \<and> hd arg = CHR ''-'' then
        (if arg = ''-h'' \<or> arg = ''--help'' then usage program 0 w
         else if arg = ''--mouse'' then
           option_loop program rest (out\<lparr>mouseInput := True\<rparr>) doShowKeys w
         else if arg = ''--showkey'' then option_loop program rest out True w
         else if arg = ''--version'' then Done (Exit 0) (emit [DumpVersion] w)
         else if arg = ''-Xallow-non-tty'' then
           option_loop program rest (out\<lparr>testAllowNonTtys := True\<rparr>) doShowKeys w
         else if arg = ''-Xconerr'' then
           option_loop program rest (out\<lparr>testConerr := True\<rparr>) doShowKeys w
         else if arg = ''-Xplain'' then
           option_loop program rest (out\<lparr>testPlainOutput := True\<rparr>) doShowKeys w
         else if arg = ''-Xcolor'' then
           option_loop program rest (out\<lparr>testColorEscapes := True\<rparr>) doShowKeys w
         else if arg = ''--'' then Next (out, doShowKeys, rest) w
         else Done (Exit 1)
                (emit [Printf Stderr (''Error: unrecognized option: '' @ [CHR 0x27] @ ''%s'' @ [CHR 0x27, CHR 0x0A])
                         [Str arg]] w))
      else Next (out\<lparr>childArgv := childArgv out @ [arg]\<rparr>, doShowKeys, rest) w)"

definition parseArguments :: "env \<Rightarrow> string list \<Rightarrow> Arguments \<Rightarrow> world \<Rightarrow> Arguments step" where
  "parseArguments e argv out0 w =
     (let out = out0\<lparr>mouseInput := False, testAllowNonTtys := False, testConerr := False,
                      testPlainOutput := False, testColorEscapes := False\<rparr>;
          program = (if length argv \<ge> 1 then argv ! 0 else ''<program>'')
      in case option_loop program (drop 1 argv) out False w of
           Done r w1 \<Rightarrow> Done r w1
         | Next (out1, doShowKeys, rest) w1 \<Rightarrow>
             (let out2 = out1\<lparr>childArgv := childArgv out1 @ rest\<rparr>
              in if doShowKeys then
                   (case debugShowKey e (testAllowNonTtys out2) w1 of
                      Done r w2 \<Rightarrow> Done r w2
                    | Next u w2 \<Rightarrow> Done (Exit 0) w2)
                 else if length (childArgv out2) = 0 then usage program 1 w1
                 else Next out2 w1))"


section \<open>Environment set-up and error messages\<close>

text \<open>The loop of \<^verbatim>\<open>setupWin32Environment\<close> over \<^verbatim>\<open>varsToCopy\<close>.\<close>

fun copy_vars :: "env \<Rightarrow> (string \<times> string) list \<Rightarrow> world \<Rightarrow> unit step" where
  "copy_vars e [] w = Next () w"
| "copy_vars e ((name, val) # vs) w =
     (case heapMbsToWcs (e_size_bits e) (e_mbstowcs e) (c_str name) of
        Inl f \<Rightarrow> Done Abort w
      | Inr nameW \<Rightarrow>
          (case heapMbsToWcs (e_size_bits e) (e_mbstowcs e) (c_str val) of
             Inl f \<Rightarrow> Done Abort w
           | Inr valueW \<Rightarrow>
               copy_vars e vs
                 (emit [SetEnvironmentVariableW (contents nameW) (Some (contents valueW))] w)))"

definition setupWin32Environment :: "env \<Rightarrow> world \<Rightarrow> unit step" where
  "setupWin32Environment e w =
     (let vars = [''WINPTY_DEBUG'', ''WINPTY_SHOW_CONSOLE''];
          varsToCopy = concat (map (\<lambda>v. case e_getenv e v of
                                            None \<Rightarrow> []
                                          | Some cstr \<Rightarrow> if cstr \<noteq> [] then [(v, cstr)] else []) vars);
          w1 = (if e_sync_winenv e then emit [SyncWinEnv] w else w)
      in case copy_vars e varsToCopy w1 of
           Done r w2 \<Rightarrow> Done r w2
         | Next u w2 \<Rightarrow> Next () (emit [SetEnvironmentVariableW (widen ''TERM'') None] w2))"

definition errorMessageToString :: "env \<Rightarrow> 32 word \<Rightarrow> string" where
  "errorMessageToString e err =
     (case e_format_message e err of
        None \<Rightarrow> []
      | Some wideMsg \<Rightarrow>
          (let msg = wcsToMbs (e_size_bits e) (e_wcstombs e) wideMsg
           in rev (dropWhile (\<lambda>c. c \<in> {SPC, CHR 0x0D, CHR 0x0A, TAB}) (rev msg))))"

definition formatErrorMessage :: "env \<Rightarrow> 32 word \<Rightarrow> string" where
  "formatErrorMessage e err =
     (let buf = e_sprintf_hex e ''error %#x'' err;
          ret = errorMessageToString e err
      in if ret = [] then ret @ buf else ret @ '' ('' @ buf @ '')'')"

section \<open>The main loop and the shutdown sequence\<close>

text \<open>
  The \<^verbatim>\<open>while (true)\<close> loop of \<^verbatim>\<open>main\<close>.  \<open>hasErr\<close> is \<^verbatim>\<open>errorHandler != NULL\<close>,
  \<open>sz\<close> the cached \<^verbatim>\<open>winsize\<close>.  \<^verbatim>\<open>memcmp\<close> compares the two structures byte by byte;
  a \<^verbatim>\<open>winsize\<close> is four 16-bit fields without padding, so they differ as byte sequences
  exactly when they differ as records.  When the wakeups of the model are used up the
  loop stays in its wait.
\<close>

fun mainLoop :: "bool \<Rightarrow> wakeup list \<Rightarrow> winsize \<Rightarrow> world \<Rightarrow> winsize step" where
  "mainLoop hasErr [] sz w = Done Waiting (emit [SelectWakeup] w)"
| "mainLoop hasErr (k # ks) sz w =
     (let w1 = emit [SelectWakeup, WakeupReset] w;
          sz2 = probe k;
          (sz', w2) = (if sz \<noteq> sz2 then (sz2, emit [SetSize (ws_col sz2) (ws_row sz2)] w1)
                       else (sz, w1))
      in if in_complete k \<or> out_complete k \<or> (hasErr \<and> err_complete k) then Next sz' w2
         else mainLoop hasErr ks sz' w2)"

text \<open>The part of \<^verbatim>\<open>main\<close> after the loop.\<close>

definition shutdown_sequence :: "env \<Rightarrow> bool \<Rightarrow> SavedTermiosMode \<Rightarrow> world \<Rightarrow> outcome \<times> world" where
  "shutdown_sequence e hasErr saved w =
     (let w1 = emit [WinptyFree,
                     ShutdownPump InputPump, ShutdownPump OutputPump,
                     CloseHandle Conin, CloseHandle Conout] w;
          w2 = (if hasErr then emit [ShutdownPump ErrorPump, DeletePump ErrorPump, CloseHandle Conerr] w1
                else w1)
      in case restoreTerminalMode (e_junk e) saved w2 of
           Done r w3 \<Rightarrow> (r, w3)
         | Next u w3 \<Rightarrow>
             (let w4 = emit [GetExitCodeProcess, CloseHandle ChildProcess] w3
              in (Return (case e_exit_code e of Some c \<Rightarrow> c | None \<Rightarrow> 1), w4)))"

section \<open>The session and the entry point\<close>

text \<open>From \<^verbatim>\<open>registerResizeSignalHandler()\<close> to the end of \<^verbatim>\<open>main\<close>.\<close>

definition run_session :: "env \<Rightarrow> Arguments \<Rightarrow> winsize \<Rightarrow> world \<Rightarrow> outcome \<times> world" where
  "run_session e args sz w =
     (case setRawTerminalMode (e_termios e) (testAllowNonTtys args) True (testConerr args)
             (emit [SigactionWinch] w) of
        Done r w1 \<Rightarrow> (r, w1)
      | Next saved w1 \<Rightarrow>
          (let w2 = emit ([StartPump InputPump, StartPump OutputPump]
                          @ (if testConerr args then [StartPump ErrorPump] else [])) w1
           in case mainLoop (testConerr args) (e_wakeups e) sz w2 of
                Done r w3 \<Rightarrow> (r, w3)
              | Next sz' w3 \<Rightarrow> shutdown_sequence e (testConerr args) saved w3))"

text \<open>
  The block of \<^verbatim>\<open>main\<close> that starts the child process under the console.  Where the
  encoder has no result (its counter has overflowed) the behaviour of the program is
  undefined; the run of the model ends there, as an abort.
\<close>

definition spawn_child :: "env \<Rightarrow> Arguments \<Rightarrow> world \<Rightarrow> unit step" where
  "spawn_child e args w =
     (if \<not> e_module_ok e then Done Abort w
      else if \<not> (length (e_module_path e) > 0 \<and> length (e_module_path e) < 1024) then Done Abort w
      else
        (let w1 = emit [FreeLibrary] w
         in case argvToCommandLine (childArgv args) of
              None \<Rightarrow> Done Abort w1
            | Some childCmdLine \<Rightarrow>
             (case heapMbsToWcs (e_size_bits e) (e_mbstowcs e) (c_str childCmdLine) of
                Inl f \<Rightarrow> Done Abort w1
              | Inr childCmdLineW \<Rightarrow>
                (let cmdLineW = widen [DQ] @ e_module_path e @ widen ([DQ] @ '' --child-exec '')
                                @ contents childCmdLineW;
                     w2 = emit [SpawnConfigNew cmdLineW] w1
                 in if \<not> e_spawn_config_ok e then Done Abort w2
                    else
                      (let w3 = emit [WinptySpawn, SpawnConfigFree] w2
                       in case e_spawn_result e of
                            CreateProcessFailed lastError \<Rightarrow>
                              Done (Exit 1)
                                (emit [Printf Stderr (''Could not start '' @ [CHR 0x27] @ ''%s'' @ [CHR 0x27]
                                                      @ '': %s'' @ [CHR 0x0A])
                                         [Str childCmdLine, Str (formatErrorMessage e lastError)]] w3)
                          | SpawnInternalError msg \<Rightarrow>
                              Done (Exit 1)
                                (emit [Printf Stderr (''Could not start '' @ [CHR 0x27] @ ''%s'' @ [CHR 0x27]
                                                      @ '': internal error: %s'' @ [CHR 0x0A])
                                         [Str childCmdLine,
                                          Str (wcsToMbs (e_size_bits e) (e_wcstombs e) msg)]] w3)
                          | SpawnOk \<Rightarrow> Next () (emit [ErrorFree] w3))))))"

text \<open>From \<^verbatim>\<open>setupWin32Environment()\<close> to the opening of the channel handles.\<close>

definition open_session :: "env \<Rightarrow> Arguments \<Rightarrow> world \<Rightarrow> winsize step" where
  "open_session e args w =
     (case setupWin32Environment e w of
        Done r w1 \<Rightarrow> Done r w1
      | Next u w1 \<Rightarrow>
          (let sz = (case e_initial_probe e of
                       Some p \<Rightarrow> p
                     | None \<Rightarrow> \<lparr>ws_row = 25, ws_col = 80, ws_xpixel = 0, ws_ypixel = 0\<rparr>);
               agentFlags0 = e_FLAG_ALLOW_CURPROC_DESKTOP_CREATION e;
               agentFlags1 = (if testConerr args then or agentFlags0 (e_FLAG_CONERR e) else agentFlags0);
               agentFlags2 = (if testPlainOutput args then or agentFlags1 (e_FLAG_PLAIN_OUTPUT e)
                              else agentFlags1);
               agentFlags = (if testColorEscapes args then or agentFlags2 (e_FLAG_COLOR_ESCAPES e)
                             else agentFlags2);
               w2 = emit [ConfigNew agentFlags] w1
           in if \<not> e_config_ok e then Done Abort w2
              else
                (let w3 = emit ([ConfigSetInitialSize (ws_col sz) (ws_row sz)]
                                @ (if mouseInput args then [ConfigSetMouseModeForce] else [])
                                @ [WinptyOpen]) w2
                 in case e_open_error e of
                      Some msg \<Rightarrow>
                        Done (Exit 1)
                          (emit [Printf Stderr (''Error creating winpty: %s'' @ [CHR 0x0A])
                                   [Str (wcsToMbs (e_size_bits e) (e_wcstombs e) msg)]] w3)
                    | None \<Rightarrow>
                        (let w4 = emit [ConfigFree, ErrorFree, CreateFileW Conin, CreateFileW Conout] w3
                         in if \<not> e_conin_ok e then Done Abort w4
                            else if \<not> e_conout_ok e then Done Abort w4
                            else if testConerr args then
                              (let w5 = emit [CreateFileW Conerr] w4
                               in if \<not> e_conerr_ok e then Done Abort w5 else Next sz w5)
                            else Next sz w4))))"

text \<open>
  Modelled from the spec: the constructor of \<^verbatim>\<open>WakeupFd\<close>, which \<^verbatim>\<open>main\<close> calls in
  \<^verbatim>\<open>g_mainWakeup = new WakeupFd()\<close>, is not under the sources.  By the specification,
  constructing the primitive is fatal when the operating system cannot provide it: the
  process aborts.
\<close>

definition new_wakeup :: "env \<Rightarrow> world \<Rightarrow> unit step" where
  "new_wakeup e w =
     (let w1 = emit [NewWakeupFd] w
      in if \<not> e_wakeup_ok e then Done Abort w1 else Next () w1)"

text \<open>\<^verbatim>\<open>main\<close>.  Its first test is the hidden re-exec protocol.\<close>

definition main :: "env \<Rightarrow> world \<Rightarrow> outcome \<times> world" where
  "main e w0 =
     (let argv = e_argv e;
          argc = length argv;
          w1 = emit [Setlocale] w0
      in if argc \<ge> 3 \<and> argv ! 1 = ''--child-exec'' then
           (let w2 = emit [Execvp (argv ! 2) (drop 2 argv)] w1
            in if e_exec_ok e then (Replaced (argv ! 2) (drop 2 argv), w2)
               else (Exit 1, emit [Perror ''error: exec failed''] w2))
         else
           (case new_wakeup e w1 of
              Done r w2 \<Rightarrow> (r, w2)
            | Next u w2 \<Rightarrow>
                (case parseArguments e argv
                        \<lparr>childArgv = [], mouseInput = False, testAllowNonTtys = False,
                         testConerr = False, testPlainOutput = False, testColorEscapes = False\<rparr> w2 of
                   Done r w3 \<Rightarrow> (r, w3)
                 | Next args w3 \<Rightarrow>
                     (case open_session e args w3 of
                        Done r w4 \<Rightarrow> (r, w4)
                      | Next sz w4 \<Rightarrow>
                          (case spawn_child e args w4 of
                             Done r w5 \<Rightarrow> (r, w5)
                           | Next u w5 \<Rightarrow> run_session e args sz w5)))))"

section \<open>Observations on traces\<close>

text \<open>The world a step ends in, and the events a part of a run has added to the trace.\<close>

fun step_world :: "'a step \<Rightarrow> world" where
  "step_world (Done r w) = w"
| "step_world (Next x w) = w"

definition new_events :: "world \<Rightarrow> world \<Rightarrow> event list" where
  "new_events w w' = drop (length (w_trace w)) (w_trace w')"

text \<open>The resize notifications of a trace, as (columns, rows).\<close>

fun resizes :: "event list \<Rightarrow> (16 word \<times> 16 word) list" where
  "resizes [] = []"
| "resizes (SetSize c r # es) = (c, r) # resizes es"
| "resizes (ev # es) = resizes es"

text \<open>The streams a trace sets attributes on, with the attributes.\<close>

fun restored :: "event list \<Rightarrow> (nat \<times> termios) list" where
  "restored [] = []"
| "restored (Tcsetattr fd t # es) = (fd, t) # restored es"
| "restored (ev # es) = restored es"

fun is_Tcsetattr :: "event \<Rightarrow> bool" where
  "is_Tcsetattr (Tcsetattr fd t) = True"
| "is_Tcsetattr ev = False"

text \<open>What a trace writes to a stream; \<^verbatim>\<open>perror\<close> writes to standard error.\<close>

fun on_stream :: "stream \<Rightarrow> event \<Rightarrow> bool" where
  "on_stream s (Printf s' fmt args) = (s = s')"
| "on_stream s (Perror msg) = (s = Stderr)"
| "on_stream s (Putchar c) = (s = Stdout)"
| "on_stream s DumpVersion = (s = Stdout)"
| "on_stream s ev = False"

definition output_on :: "stream \<Rightarrow> event list \<Rightarrow> event list" where
  "output_on s tr = filter (on_stream s) tr"

text \<open>The exit test of the main loop for one wakeup.\<close>

definition finished :: "bool \<Rightarrow> wakeup \<Rightarrow> bool" where
  "finished hasErr k = (in_complete k \<or> out_complete k \<or> (hasErr \<and> err_complete k))"

text \<open>
  The events of the pump workers' start and of the shutdown sequence.  No other part of
  the program produces them.
\<close>

fun pump_or_teardown :: "event \<Rightarrow> bool" where
  "pump_or_teardown WinptyFree = True"
| "pump_or_teardown (StartPump h) = True"
| "pump_or_teardown (ShutdownPump h) = True"
| "pump_or_teardown (DeletePump h) = True"
| "pump_or_teardown (CloseHandle h) = True"
| "pump_or_teardown GetExitCodeProcess = True"
| "pump_or_teardown ev = False"

fun is_return :: "outcome \<Rightarrow> bool" where
  "is_return (Return c) = True"
| "is_return r = False"

text \<open>
  \<open>grows w w'\<close>: the trace of \<open>w'\<close> extends the trace of \<open>w\<close> by events that are neither
  pump starts nor teardown events.  \<open>quiet w s\<close>: the step \<open>s\<close>, started in \<open>w\<close>, has
  only added such events, and has not returned from \<^verbatim>\<open>main\<close>.
\<close>

definition grows :: "world \<Rightarrow> world \<Rightarrow> bool" where
  "grows w w' = (\<exists>es. w_trace w' = w_trace w @ es \<and> list_all (\<lambda>ev. \<not> pump_or_teardown ev) es)"

fun quiet :: "world \<Rightarrow> 'a step \<Rightarrow> bool" where
  "quiet w (Done r w') = (\<not> is_return r \<and> grows w w')"
| "quiet w (Next x w') = grows w w'"

text \<open>
  The events of the main loop: waiting on the wakeup primitive, resetting it, and a
  resize notification.
\<close>

fun loop_event :: "event \<Rightarrow> bool" where
  "loop_event SelectWakeup = True"
| "loop_event WakeupReset = True"
| "loop_event (SetSize c r) = True"
| "loop_event ev = False"

text \<open>
  The events of the phases before the terminal is put into raw mode: no pump start, no
  teardown event and no \<^verbatim>\<open>tcsetattr\<close>.  \<open>plain w w'\<close>: \<open>w'\<close> is \<open>w\<close> with only such
  events added to its trace.  \<open>calm w s\<close>: the step \<open>s\<close>, started in \<open>w\<close>, has done
  only that if it goes on.
\<close>

definition setup_event :: "event \<Rightarrow> bool" where
  "setup_event ev = (\<not> pump_or_teardown ev \<and> \<not> is_Tcsetattr ev)"

definition plain :: "world \<Rightarrow> world \<Rightarrow> bool" where
  "plain w w' = (\<exists>es. w' = emit es w \<and> list_all setup_event es)"

fun calm :: "world \<Rightarrow> 'a step \<Rightarrow> bool" where
  "calm w (Done r w') = True"
| "calm w (Next x w') = plain w w'"

text \<open>\<open>unfreed w w'\<close>: between \<open>w\<close> and \<open>w'\<close> the session object has not been freed.\<close>

definition unfreed :: "world \<Rightarrow> world \<Rightarrow> bool" where
  "unfreed w w' = (\<exists>es. w_trace w' = w_trace w @ es \<and> WinptyFree \<notin> set es)"

section \<open>Example inputs\<close>

text \<open>
  Concrete inputs on which the definitions are evaluated: header constants with the
  values of one build, a terminal in cooked mode, a world whose three standard streams
  are one terminal and whose calls all succeed, and a run of \<^verbatim>\<open>winpty cmd\<close> whose
  terminal grows from 80x25 to 120x40 before the child exits with code 7.
\<close>

definition demo_macros :: termios_macros where
  "demo_macros = \<lparr>m_ECHO = 0x4, m_ICANON = 0x2, m_IEXTEN = 0x100, m_ISIG = 0x1,
     m_BRKINT = 0x2, m_ICRNL = 0x100, m_INPCK = 0x10, m_ISTRIP = 0x20, m_IXON = 0x400,
     m_CSIZE = 0x30, m_PARENB = 0x100, m_CS8 = 0x30, m_OPOST = 0x1, m_VMIN = 9, m_VTIME = 16\<rparr>"

definition demo_termios :: termios where
  "demo_termios = \<lparr>c_iflag = 0x500, c_oflag = 0x1, c_cflag = 0xB0, c_lflag = 0x107,
     c_cc = replicate 18 0\<rparr>"

definition geom :: "nat \<Rightarrow> nat \<Rightarrow> nat \<Rightarrow> nat \<Rightarrow> winsize" where
  "geom cols rows xp yp =
     \<lparr>ws_row = of_nat rows, ws_col = of_nat cols, ws_xpixel = of_nat xp, ws_ypixel = of_nat yp\<rparr>"

definition tick :: "winsize \<Rightarrow> bool \<Rightarrow> wakeup" where
  "tick g fin = \<lparr>probe = g, in_complete = False, out_complete = fin, err_complete = False\<rparr>"

definition ascii_mbstowcs :: "string \<Rightarrow> nat \<Rightarrow> nat \<times> wstring" where
  "ascii_mbstowcs s n = (min (length s) n, take n (widen s))"

definition ascii_wcstombs :: "wstring \<Rightarrow> nat \<Rightarrow> nat \<times> string" where
  "ascii_wcstombs ws n = (min (length ws) n, take n (map (\<lambda>c. char_of (unat c)) ws))"

definition demo_env :: env where
  "demo_env = \<lparr>
     e_argv = [''winpty'', ''cmd''],
     e_size_bits = 32,
     e_mbstowcs = ascii_mbstowcs,
     e_wcstombs = ascii_wcstombs,
     e_sprintf_hex = (\<lambda>f v. ''error 0x2''),
     e_termios = demo_macros,
     e_junk = demo_termios,
     e_exec_ok = False,
     e_wakeup_ok = True,
     e_decodeUnixCtrlChar = (\<lambda>c. NUL),
     e_stdin_reads = [],
     e_getenv = (\<lambda>v. None),
     e_sync_winenv = True,
     e_initial_probe = Some (geom 80 25 0 0),
     e_FLAG_ALLOW_CURPROC_DESKTOP_CREATION = 0x8,
     e_FLAG_CONERR = 0x1,
     e_FLAG_PLAIN_OUTPUT = 0x2,
     e_FLAG_COLOR_ESCAPES = 0x4,
     e_config_ok = True,
     e_open_error = None,
     e_conin_ok = True,
     e_conout_ok = True,
     e_conerr_ok = True,
     e_module_ok = True,
     e_module_path = widen ''C:/winpty.exe'',
     e_spawn_config_ok = True,
     e_spawn_result = SpawnOk,
     e_format_message = (\<lambda>err. None),
     e_wakeups = [tick (geom 80 25 0 0) False, tick (geom 120 40 0 0) False,
                  tick (geom 120 40 0 0) True],
     e_exit_code = Some 7\<rparr>"

definition demo_world :: world where
  "demo_world = \<lparr>w_tty = (\<lambda>fd. True), w_dev = (\<lambda>fd. 0), w_attrs = (\<lambda>d. demo_termios),
     w_fail = (\<lambda>n. False), w_calls = 0, w_trace = []\<rparr>"

text \<open>The same world with standard output redirected away from the terminal.\<close>

definition piped_world :: world where
  "piped_world = demo_world\<lparr>w_tty := (\<lambda>fd. fd \<noteq> 1)\<rparr>"

text \<open>
  The terminal world in which the seventh call that can fail does fail.  In the run of
  \<^verbatim>\<open>winpty cmd\<close> the calls are: \<^verbatim>\<open>tcgetattr\<close> on standard input and on standard output
  for the snapshot (0, 1), \<^verbatim>\<open>tcgetattr\<close> and \<^verbatim>\<open>tcsetattr\<close> for the raw input mode (2, 3)
  and for the raw output mode (4, 5), and then the first \<^verbatim>\<open>tcsetattr\<close> of
  \<^verbatim>\<open>restoreTerminalMode\<close> (6).
\<close>

definition restore_fails_world :: world where
  "restore_fails_world = demo_world\<lparr>w_fail := (\<lambda>n. n = 6)\<rparr>"

text \<open>
  The run of \<^verbatim>\<open>winpty cmd\<close> on a terminal that reports its pixel sizes only after the
  start: the start-up probe gives 80x25 with pixel sizes 0, the first iteration 80x25
  with pixel sizes 640x400, the next two 120x40 with pixel sizes 960x640.
\<close>

definition pixel_change_env :: env where
  "pixel_change_env = demo_env\<lparr>e_wakeups :=
     [tick (geom 80 25 640 400) False, tick (geom 120 40 960 640) False,
      tick (geom 120 40 960 640) True]\<rparr>"

section \<open>Properties of the codec\<close>

lemma arg_loop_acc:
  "unbounded_loop p k res = (res @ fst (unbounded_loop p k []), snd (unbounded_loop p k []))"
proof (induction p arbitrary: k res)
  case Nil
  show ?case by simp
next
  case (Cons c p)
  show ?case
    using Cons.IH [of "k + 1" res] Cons.IH [of 0 "res @ replicate (k * 2 + 1) BSL @ [DQ]"]
      Cons.IH [of 0 "res @ replicate k BSL @ [c]"]
      Cons.IH [of 0 "replicate (k * 2 + 1) BSL @ [DQ]"]
      Cons.IH [of 0 "replicate k BSL @ [c]"]
    by simp
qed

lemma flushed_Nil: "flushed [] k m = replicate (m * k) BSL"
  by (simp add: flushed_def)

lemma flushed_BSL: "flushed (BSL # p) k m = flushed p (Suc k) m"
  by (simp add: flushed_def)

lemma flushed_DQ: "flushed (DQ # p) k m = replicate (2 * k + 1) BSL @ DQ # flushed p 0 m"
  using arg_loop_acc [of p 0 "replicate (k * 2 + 1) BSL @ [DQ]"]
  by (simp add: flushed_def mult.commute)

lemma flushed_other:
  "c \<noteq> BSL \<Longrightarrow> c \<noteq> DQ \<Longrightarrow> flushed (c # p) k m = replicate k BSL @ c # flushed p 0 m"
  using arg_loop_acc [of p 0 "replicate k BSL @ [c]"]
  by (simp add: flushed_def)

lemma split_go_backslashes:
  "split_go (replicate n BSL @ xs) ia q b cur = split_go xs (ia \<or> 0 < n) q (b + n) cur"
  by (induction n arbitrary: ia b) auto

lemma replicate_snoc_app: "replicate k x @ x # xs = replicate (Suc k) x @ xs"
  by (simp add: replicate_app_Cons_same)

lemma split_go_quoted:
  "split_go (flushed p k 2 @ DQ # rest) ia True 0 cur
     = split_go rest True False 0 (cur @ replicate k BSL @ p)"
proof (induction p arbitrary: k ia cur)
  case Nil
  show ?case
    by (simp add: flushed_Nil split_go_backslashes)
next
  case (Cons c p)
  consider "c = BSL" | "c = DQ" | "c \<noteq> BSL" "c \<noteq> DQ" by blast
  then show ?case
  proof cases
    case 1
    then show ?thesis
      using Cons.IH [of "Suc k" ia cur] by (simp add: flushed_BSL replicate_snoc_app)
  next
    case 2
    have "split_go (flushed (c # p) k 2 @ DQ # rest) ia True 0 cur
        = split_go (DQ # flushed p 0 2 @ DQ # rest) True True (2 * k + 1) cur"
      using split_go_backslashes [of "2 * k + 1" "DQ # flushed p 0 2 @ DQ # rest" ia True 0 cur]
      by (simp add: 2 flushed_DQ)
    also have "\<dots> = split_go (flushed p 0 2 @ DQ # rest) True True 0 (cur @ replicate k BSL @ [DQ])"
      by simp
    also have "\<dots> = split_go rest True False 0 (cur @ replicate k BSL @ c # p)"
      using Cons.IH [of 0 True "cur @ replicate k BSL @ [DQ]"] by (simp add: 2)
    finally show ?thesis .
  next
    case 3
    have "split_go (flushed (c # p) k 2 @ DQ # rest) ia True 0 cur
        = split_go (c # flushed p 0 2 @ DQ # rest) (ia \<or> 0 < k) True k cur"
      using split_go_backslashes [of k "c # flushed p 0 2 @ DQ # rest" ia True 0 cur]
      by (simp add: 3 flushed_other)
    also have "\<dots> = split_go (flushed p 0 2 @ DQ # rest) True True 0 (cur @ replicate k BSL @ [c])"
      using 3 by simp
    also have "\<dots> = split_go rest True False 0 (cur @ replicate k BSL @ c # p)"
      using Cons.IH [of 0 True "cur @ replicate k BSL @ [c]"] by simp
    finally show ?thesis .
  qed
qed

lemma split_go_arg_end:
  "arg_end rest \<Longrightarrow>
   split_go rest ia False b cur
     = (if ia then [cur @ replicate b BSL] else []) @ split_go (tl rest) False False 0 []"
  by (cases rest) (auto simp: arg_end_def)

lemma split_go_unquoted:
  "SPC \<notin> set p \<Longrightarrow> TAB \<notin> set p \<Longrightarrow> arg_end rest \<Longrightarrow>
   split_go (flushed p k 1 @ rest) ia False 0 cur
     = (if ia \<or> 0 < k \<or> p \<noteq> [] then [cur @ replicate k BSL @ p] else [])
       @ split_go (tl rest) False False 0 []"
proof (induction p arbitrary: k ia cur)
  case Nil
  then show ?case
    by (simp add: flushed_Nil split_go_backslashes split_go_arg_end)
next
  case (Cons c p)
  from Cons.prems have np: "SPC \<notin> set p" "TAB \<notin> set p" and nc: "c \<noteq> SPC" "c \<noteq> TAB"
    by auto
  note IH = Cons.IH [OF np Cons.prems(3)]
  consider "c = BSL" | "c = DQ" | "c \<noteq> BSL" "c \<noteq> DQ" by blast
  then show ?case
  proof cases
    case 1
    then show ?thesis
      using IH [of "Suc k" ia cur] by (simp add: flushed_BSL replicate_snoc_app)
  next
    case 2
    have "split_go (flushed (c # p) k 1 @ rest) ia False 0 cur
        = split_go (DQ # flushed p 0 1 @ rest) True False (2 * k + 1) cur"
      using split_go_backslashes [of "2 * k + 1" "DQ # flushed p 0 1 @ rest" ia False 0 cur]
      by (simp add: 2 flushed_DQ)
    also have "\<dots> = split_go (flushed p 0 1 @ rest) True False 0 (cur @ replicate k BSL @ [DQ])"
      by simp
    finally show ?thesis
      using IH [of 0 True "cur @ replicate k BSL @ [DQ]"] by (simp add: 2)
  next
    case 3
    have "split_go (flushed (c # p) k 1 @ rest) ia False 0 cur
        = split_go (c # flushed p 0 1 @ rest) (ia \<or> 0 < k) False k cur"
      using split_go_backslashes [of k "c # flushed p 0 1 @ rest" ia False 0 cur]
      by (simp add: 3 flushed_other)
    also have "\<dots> = split_go (flushed p 0 1 @ rest) True False 0 (cur @ replicate k BSL @ [c])"
      using 3 nc by simp
    finally show ?thesis
      using IH [of 0 True "cur @ replicate k BSL @ [c]"] by simp
  qed
qed

lemma unbounded_loop_count: "snd (unbounded_loop p k res) \<le> k + length p"
proof (induction p arbitrary: k res)
  case Nil
  show ?case by simp
next
  case (Cons c p)
  show ?case
    using Cons.IH [of "k + 1" res] Cons.IH [of 0 "res @ replicate (k * 2 + 1) BSL @ [DQ]"]
      Cons.IH [of 0 "res @ replicate k BSL @ [c]"]
    by auto
qed

lemma arg_loop_in_range:
  "k + length p < 2 ^ 30 \<Longrightarrow> arg_loop p k res = Some (unbounded_loop p k res)"
proof (induction p arbitrary: k res)
  case Nil
  show ?case by simp
next
  case (Cons c p)
  from Cons.prems have k: "k + 1 \<le> INT_MAX" "k * 2 + 1 \<le> INT_MAX"
    by (simp_all add: INT_MAX_def)
  from Cons.prems have a: "(k + 1) + length p < 2 ^ 30" and b: "0 + length p < 2 ^ 30"
    by simp_all
  show ?case
    using k Cons.IH [OF a, of res] Cons.IH [OF b, of "res @ replicate (k * 2 + 1) BSL @ [DQ]"]
      Cons.IH [OF b, of "res @ replicate k BSL @ [c]"]
    by (simp add: not_less [symmetric])
qed

lemma encode_one_eq:
  assumes "length (c_str a) < 2 ^ 30"
  shows "encode_one i a res = Some (res @ (if 0 < i then [SPC] else []) @ encoded_arg a)"
proof -
  have r: "arg_loop (c_str a) 0 r0 = Some (unbounded_loop (c_str a) 0 r0)" for r0
    using assms by (simp add: arg_loop_in_range)
  have "snd (unbounded_loop (c_str a) 0 r0) \<le> length (c_str a)" for r0
    using unbounded_loop_count [of "c_str a" 0 r0] by simp
  then have f: "\<not> snd (unbounded_loop (c_str a) 0 r0) * 2 > INT_MAX" for r0
    using assms le_less_trans [of "snd (unbounded_loop (c_str a) 0 r0)" "length (c_str a)" "2 ^ 30"]
    by (simp add: INT_MAX_def)
  show ?thesis
    using arg_loop_acc [of "c_str a" 0 "res @ [SPC] @ [DQ]"]
      arg_loop_acc [of "c_str a" 0 "res @ [DQ]"]
      arg_loop_acc [of "c_str a" 0 "res @ [SPC]"]
      arg_loop_acc [of "c_str a" 0 "res"]
      f [of "res @ [SPC] @ [DQ]"] f [of "res @ [DQ]"]
    by (simp add: encode_one_def r encoded_arg_def flushed_def Let_def split: prod.splits)
qed

lemma argv_loop_eq:
  assumes "\<forall>a \<in> set as. length (c_str a) < 2 ^ 30"
  shows "argv_loop as i res
     = Some (res @ (if 0 < i \<and> as \<noteq> [] then [SPC] else []) @ join_spaces (map encoded_arg as))"
  using assms
proof (induction as arbitrary: i res)
  case Nil
  show ?case by simp
next
  case (Cons a as)
  from Cons.prems have a: "length (c_str a) < 2 ^ 30"
    and as: "\<forall>a \<in> set as. length (c_str a) < 2 ^ 30"
    by simp_all
  show ?case
    using Cons.IH [OF as, of "i + 1" "res @ (if 0 < i then [SPC] else []) @ encoded_arg a"]
    by (cases as) (simp_all add: encode_one_eq [OF a])
qed

lemma argvToCommandLine_join:
  assumes "\<forall>a \<in> set argv. length (c_str a) < 2 ^ 30"
  shows "argvToCommandLine argv = Some (join_spaces (map encoded_arg argv))"
  using argv_loop_eq [OF assms, of 0 "[]"] by (simp add: argvToCommandLine_def)

lemma split_go_encoded_arg:
  assumes "arg_end rest"
  shows "split_go (encoded_arg a @ rest) False False 0 []
           = c_str a # split_go (tl rest) False False 0 []"
proof (cases "quote_needed (c_str a)")
  case True
  have "split_go (encoded_arg a @ rest) False False 0 []
      = split_go (flushed (c_str a) 0 2 @ DQ # rest) True True 0 []"
    by (simp add: encoded_arg_def True)
  also have "\<dots> = split_go rest True False 0 (c_str a)"
    by (simp add: split_go_quoted)
  finally show ?thesis
    by (simp add: split_go_arg_end [OF assms])
next
  case False
  then have "SPC \<notin> set (c_str a)" "TAB \<notin> set (c_str a)" "c_str a \<noteq> []"
    by (auto simp: quote_needed_def)
  then show ?thesis
    using split_go_unquoted [of "c_str a" rest 0 False "[]"] assms False
    by (simp add: encoded_arg_def)
qed

lemma split_go_join:
  "split_go (join_spaces (map encoded_arg argv)) False False 0 [] = map c_str argv"
proof (induction argv rule: join_spaces.induct)
  case 1
  show ?case by simp
next
  case (2 a)
  show ?case
    using split_go_encoded_arg [of "[]" a] by (simp add: arg_end_def)
next
  case (3 a b bs)
  show ?case
    using split_go_encoded_arg [of "SPC # join_spaces (map encoded_arg (b # bs))" a] "3.IH"
    by (simp add: arg_end_def)
qed

lemma c_str_id: "NUL \<notin> set a \<Longrightarrow> c_str a = a"
  by (auto simp: c_str_def)

lemma spec_escape_Nil: "spec_escape quoted (replicate k BSL) = replicate ((if quoted then 2 else 1) * k) BSL"
  by (subst spec_escape.simps) (simp add: Let_def replicate_add [symmetric] mult_2 del: replicate_add)

lemma takeWhile_run: "c \<noteq> BSL \<Longrightarrow> takeWhile (\<lambda>c. c = BSL) (replicate k BSL @ c # p) = replicate k BSL"
  by (induction k) auto

lemma dropWhile_run: "c \<noteq> BSL \<Longrightarrow> dropWhile (\<lambda>c. c = BSL) (replicate k BSL @ c # p) = c # p"
  by (induction k) auto

lemma replicate_double_snoc: "replicate k x @ replicate k x @ [x] = replicate (2 * k + 1) x"
proof -
  have "2 * k + 1 = k + (k + 1)" by simp
  then have "replicate (2 * k + 1) x = replicate k x @ replicate (k + 1) x"
    by (simp only: replicate_add)
  also have "replicate (k + 1) x = replicate k x @ [x]"
    by (simp add: replicate_append_same)
  finally show ?thesis by simp
qed

lemma spec_escape_flushed:
  "spec_escape quoted (replicate k BSL @ p) = flushed p k (if quoted then 2 else 1)"
proof (induction p arbitrary: k)
  case Nil
  show ?case using spec_escape_Nil [of quoted k] by (simp add: flushed_Nil)
next
  case (Cons c p)
  show ?case
  proof (cases "c = BSL")
    case True
    then show ?thesis
      using Cons.IH [of "Suc k"] by (simp add: flushed_BSL replicate_snoc_app)
  next
    case False
    have step: "spec_escape quoted (replicate k BSL @ c # p)
        = (if c = DQ then replicate k BSL @ replicate k BSL @ [BSL, DQ] else replicate k BSL @ [c])
          @ spec_escape quoted p"
      by (subst spec_escape.simps) (simp add: Let_def takeWhile_run [OF False] dropWhile_run [OF False])
    show ?thesis
    proof (cases "c = DQ")
      case True
      have "replicate k BSL @ replicate k BSL @ [BSL] = replicate (2 * k + 1) BSL"
        by (rule replicate_double_snoc)
      then show ?thesis
        using step Cons.IH [of 0] True by (simp add: flushed_DQ)
    next
      case F2: False
      then show ?thesis
        using step Cons.IH [of 0] False by (simp add: flushed_other)
    qed
  qed
qed

lemma spec_arg_encoded: "spec_arg (c_str a) = encoded_arg a"
  using spec_escape_flushed [of True 0 "c_str a"] spec_escape_flushed [of False 0 "c_str a"]
  by (simp add: spec_arg_def encoded_arg_def spec_wants_quote_def quote_needed_def)

section \<open>Properties of a run\<close>

subsection \<open>What the phases before the shutdown add to the trace\<close>

lemma emit_emit: "emit b (emit a w) = emit (a @ b) w"
  by (simp add: emit_def)

lemma parse_no_args:
  assumes "length argv \<le> 1"
  shows "parseArguments e argv
           \<lparr>childArgv = [], mouseInput = False, testAllowNonTtys = False,
            testConerr = False, testPlainOutput = False, testColorEscapes = False\<rparr> w
         = usage (if length argv \<ge> 1 then argv ! 0 else ''<program>'') 1 w"
proof -
  from assms have "drop 1 argv = []" by simp
  then show ?thesis
    by (simp add: parseArguments_def Let_def)
qed

lemma grows_refl [simp]: "grows w w"
  by (simp add: grows_def)

lemma grows_trans: "grows a b \<Longrightarrow> grows b c \<Longrightarrow> grows a c"
  by (auto simp: grows_def)

lemma grows_emit: "list_all (\<lambda>ev. \<not> pump_or_teardown ev) es \<Longrightarrow> grows w (emit es w)"
  by (simp add: grows_def emit_def)

lemma grows_emit_after: "grows w w' \<Longrightarrow> list_all (\<lambda>ev. \<not> pump_or_teardown ev) es \<Longrightarrow> grows w (emit es w')"
  by (auto simp: grows_def emit_def)

lemma grows_tcgetattr: "tcgetattr fd w = (r, w') \<Longrightarrow> grows w w'"
  by (auto simp: tcgetattr_def grows_def split: if_splits)

lemma grows_tcsetattr: "tcsetattr fd t w = (r, w') \<Longrightarrow> grows w w'"
  by (auto simp: tcsetattr_def grows_def emit_def Let_def split: if_splits)

lemma quiet_mono: "grows w0 w \<Longrightarrow> quiet w s \<Longrightarrow> quiet w0 s"
  by (cases s) (auto intro: grows_trans)

lemma quiet_capture_loop: "quiet w (capture_loop a is ret w)"
proof (induction "is" arbitrary: ret w)
  case Nil
  show ?case by simp
next
  case (Cons i "is")
  show ?case
  proof (cases "valid ret ! i")
    case False
    then show ?thesis using Cons.IH by simp
  next
    case v: True
    show ?thesis
    proof (cases "w_tty w i")
      case False
      then show ?thesis
        using v Cons.IH by (cases a) (simp_all add: Let_def grows_emit)
    next
      case True
      obtain r w1 where g: "tcgetattr i w = (r, w1)" by (cases "tcgetattr i w")
      have gw: "grows w w1" using g by (rule grows_tcgetattr)
      show ?thesis
      proof (cases r)
        case None
        then show ?thesis
          using v True g gw by (simp add: Let_def grows_emit_after)
      next
        case (Some t)
        then show ?thesis
          using v True g quiet_mono [OF gw Cons.IH] by (simp add: Let_def)
      qed
    qed
  qed
qed

lemma quiet_set_raw_input: "quiet w (set_raw_input m ret w)"
proof (cases "valid ret ! 0")
  case False
  then show ?thesis by (simp add: set_raw_input_def)
next
  case v: True
  obtain r w1 where g: "tcgetattr 0 w = (r, w1)" by (cases "tcgetattr 0 w")
  have gw: "grows w w1" using g by (rule grows_tcgetattr)
  show ?thesis
  proof (cases r)
    case None
    then show ?thesis using v g gw by (simp add: set_raw_input_def grows_emit_after)
  next
    case (Some buf)
    obtain b w2 where s: "tcsetattr 0 (raw_input_mode m buf) w1 = (b, w2)"
      by (cases "tcsetattr 0 (raw_input_mode m buf) w1")
    have "grows w w2" using gw grows_tcsetattr [OF s] by (rule grows_trans)
    then show ?thesis
      using v g Some s by (cases b) (simp_all add: set_raw_input_def grows_emit_after)
  qed
qed

lemma quiet_set_raw_outputs: "quiet w (set_raw_outputs m is ret w)"
proof (induction "is" arbitrary: w)
  case Nil
  show ?case by simp
next
  case (Cons i "is")
  show ?case
  proof (cases "valid ret ! i")
    case False
    then show ?thesis using Cons.IH by simp
  next
    case v: True
    obtain r w1 where g: "tcgetattr i w = (r, w1)" by (cases "tcgetattr i w")
    have gw: "grows w w1" using g by (rule grows_tcgetattr)
    show ?thesis
    proof (cases r)
      case None
      then show ?thesis using v g gw by (simp add: grows_emit_after)
    next
      case (Some buf)
      obtain b w2 where s: "tcsetattr i (raw_output_mode m buf) w1 = (b, w2)"
        by (cases "tcsetattr i (raw_output_mode m buf) w1")
      have gw2: "grows w w2" using gw grows_tcsetattr [OF s] by (rule grows_trans)
      show ?thesis
        using v g Some s gw2 quiet_mono [OF gw2 Cons.IH]
        by (cases b) (simp_all add: grows_emit_after)
    qed
  qed
qed

lemma quiet_Done: "quiet w (Done r w') = (\<not> is_return r \<and> grows w w')"
  by simp

text \<open>Sequencing: a step that is quiet, followed by a continuation that is quiet.\<close>

lemma quiet_bind:
  assumes "quiet w s"
    and "\<And>x w'. s = Next x w' \<Longrightarrow> quiet w' (k x w')"
  shows "quiet w (case s of Done r w' \<Rightarrow> Done r w' | Next x w' \<Rightarrow> k x w')"
proof (cases s)
  case (Done r w')
  then show ?thesis using assms(1) by simp
next
  case (Next x w')
  then have "grows w w'" using assms(1) by simp
  then show ?thesis using Next assms(2) [OF Next] by (simp add: quiet_mono)
qed

lemma quiet_setRawTerminalMode: "quiet w (setRawTerminalMode m a so se w)"
  unfolding setRawTerminalMode_def Let_def
  apply (rule quiet_bind)
   apply (rule quiet_capture_loop)
  apply (rule quiet_bind)
   apply (rule quiet_set_raw_input)
  apply (rule quiet_bind)
   apply (rule quiet_set_raw_outputs)
  apply simp
  done

lemma quiet_restore_loop: "quiet w (restore_loop junk is saved w)"
proof (induction "is" arbitrary: w)
  case Nil
  show ?case by simp
next
  case (Cons i "is")
  show ?case
  proof (cases "valid saved ! i")
    case False
    then show ?thesis using Cons.IH by simp
  next
    case v: True
    obtain b w1 where s: "tcsetattr i (case mode saved ! i of Some t \<Rightarrow> t | None \<Rightarrow> junk) w = (b, w1)"
      by (cases "tcsetattr i (case mode saved ! i of Some t \<Rightarrow> t | None \<Rightarrow> junk) w")
    have gw: "grows w w1" using s by (rule grows_tcsetattr)
    show ?thesis
      using v s gw quiet_mono [OF gw Cons.IH]
      by (cases b) (simp_all add: grows_emit_after)
  qed
qed

lemma quiet_restoreTerminalMode: "quiet w (restoreTerminalMode junk saved w)"
  unfolding restoreTerminalMode_def by (rule quiet_restore_loop)

lemma quiet_usage: "quiet w (usage program n w)"
  by (simp add: usage_def grows_emit)

lemma list_all_show_chars: "list_all (\<lambda>ev. \<not> pump_or_teardown ev) (show_chars decode buf)"
  by (induction buf) (simp_all add: show_chars_def Let_def)

lemma list_all_show_codes: "list_all (\<lambda>ev. \<not> pump_or_teardown ev) (show_codes buf)"
  by (induction buf) (simp_all add: show_codes_def Let_def)

lemma quiet_showkey_loop: "quiet w (showkey_loop decode rs w)"
proof (induction rs arbitrary: w)
  case Nil
  show ?case by simp
next
  case (Cons r rs)
  have g: "grows w (emit (show_chars decode (take 128 r) @ show_codes (take 128 r)) w)"
    by (rule grows_emit) (simp add: list_all_show_chars list_all_show_codes)
  show ?case
    using g quiet_mono [OF g Cons.IH] by (simp add: Let_def)
qed

lemma quiet_debugShowKey: "quiet w (debugShowKey e a w)"
proof -
  let ?w1 = "emit [Printf Stdout ([CHR 0x0A] @ ''Press any keys -- Ctrl-D exits'' @ [CHR 0x0A, CHR 0x0A]) []] w"
  have g: "grows w ?w1" by (rule grows_emit) simp
  have "quiet ?w1 (debugShowKey e a w)"
    unfolding debugShowKey_def Let_def
    apply (rule quiet_bind)
     apply (rule quiet_setRawTerminalMode)
    apply (rule quiet_bind)
     apply (rule quiet_showkey_loop)
    apply (rule quiet_restoreTerminalMode)
    done
  then show ?thesis using g by (rule quiet_mono [rotated])
qed

lemma quiet_option_loop: "quiet w (option_loop program args out d w)"
proof (induction args arbitrary: out d)
  case Nil
  show ?case by simp
next
  case (Cons arg rest)
  show ?case
    using Cons.IH by (simp add: quiet_usage grows_emit)
qed

lemma quiet_parseArguments: "quiet w (parseArguments e argv out0 w)"
proof -
  have k: "quiet w' (case x of (out1, doShowKeys, rest) \<Rightarrow>
             (let out2 = out1\<lparr>childArgv := childArgv out1 @ rest\<rparr>
              in if doShowKeys then
                   (case debugShowKey e (testAllowNonTtys out2) w' of
                      Done r w2 \<Rightarrow> Done r w2
                    | Next u w2 \<Rightarrow> Done (Exit 0) w2)
                 else if length (childArgv out2) = 0 then usage program 1 w'
                 else Next out2 w'))" for x w' program
  proof -
    obtain out1 doShowKeys rest where x: "x = (out1, doShowKeys, rest)" by (cases x)
    have "quiet w' (case debugShowKey e a w' of Done r w2 \<Rightarrow> Done r w2 | Next u w2 \<Rightarrow> Done (Exit 0) w2)" for a
      using quiet_debugShowKey [of w' e a] by (cases "debugShowKey e a w'") simp_all
    from this [of "testAllowNonTtys out1"] show ?thesis
      by (cases doShowKeys) (simp_all add: x Let_def quiet_usage)
  qed
  show ?thesis
    unfolding parseArguments_def Let_def
    apply (rule quiet_bind)
     apply (rule quiet_option_loop)
    apply (rule k [unfolded Let_def])
    done
qed

lemma quiet_copy_vars: "quiet w (copy_vars e vs w)"
proof (induction vs arbitrary: w)
  case Nil
  show ?case by simp
next
  case (Cons v vs)
  obtain name val where v: "v = (name, val)" by (cases v)
  have "quiet w (copy_vars e vs (emit [SetEnvironmentVariableW a b] w))" for a b
    by (rule quiet_mono [OF _ Cons.IH]) (simp add: grows_emit)
  then show ?case
    by (simp add: v split: sum.splits)
qed

lemma quiet_setupWin32Environment: "quiet w (setupWin32Environment e w)"
proof -
  have g: "grows w (if e_sync_winenv e then emit [SyncWinEnv] w else w)"
    by (simp add: grows_emit)
  have "quiet (if e_sync_winenv e then emit [SyncWinEnv] w else w) (setupWin32Environment e w)"
    unfolding setupWin32Environment_def Let_def
    apply (rule quiet_bind)
     apply (rule quiet_copy_vars)
    apply (simp add: grows_emit)
    done
  then show ?thesis using g by (rule quiet_mono [rotated])
qed

lemma quiet_mainLoop: "quiet w (mainLoop hasErr ks sz w)"
proof (induction ks arbitrary: sz w)
  case Nil
  show ?case by (simp add: grows_emit)
next
  case (Cons k ks)
  let ?w1 = "emit [SelectWakeup, WakeupReset] w"
  let ?w2 = "emit [SetSize (ws_col (probe k)) (ws_row (probe k))] ?w1"
  have g1: "grows w ?w1" by (rule grows_emit) simp
  have g2: "grows w ?w2" by (rule grows_emit_after [OF g1]) simp
  show ?case
    using g1 g2 quiet_mono [OF g1 Cons.IH] quiet_mono [OF g2 Cons.IH]
    by (simp add: Let_def)
qed

lemma quiet_spawn_child: "quiet w (spawn_child e args w)"
  by (simp add: spawn_child_def Let_def grows_emit emit_emit
      split: option.splits sum.splits spawn_result.splits)

lemma quiet_open_session: "quiet w (open_session e args w)"
proof -
  have k: "quiet w' (let sz = (case e_initial_probe e of
                       Some p \<Rightarrow> p
                     | None \<Rightarrow> \<lparr>ws_row = 25, ws_col = 80, ws_xpixel = 0, ws_ypixel = 0\<rparr>);
               agentFlags0 = e_FLAG_ALLOW_CURPROC_DESKTOP_CREATION e;
               agentFlags1 = (if testConerr args then or agentFlags0 (e_FLAG_CONERR e) else agentFlags0);
               agentFlags2 = (if testPlainOutput args then or agentFlags1 (e_FLAG_PLAIN_OUTPUT e)
                              else agentFlags1);
               agentFlags = (if testColorEscapes args then or agentFlags2 (e_FLAG_COLOR_ESCAPES e)
                             else agentFlags2);
               w2 = emit [ConfigNew agentFlags] w'
           in if \<not> e_config_ok e then Done Abort w2
              else
                (let w3 = emit ([ConfigSetInitialSize (ws_col sz) (ws_row sz)]
                                @ (if mouseInput args then [ConfigSetMouseModeForce] else [])
                                @ [WinptyOpen]) w2
                 in case e_open_error e of
                      Some msg \<Rightarrow>
                        Done (Exit 1)
                          (emit [Printf Stderr (''Error creating winpty: %s'' @ [CHR 0x0A])
                                   [Str (wcsToMbs (e_size_bits e) (e_wcstombs e) msg)]] w3)
                    | None \<Rightarrow>
                        (let w4 = emit [ConfigFree, ErrorFree, CreateFileW Conin, CreateFileW Conout] w3
                         in if \<not> e_conin_ok e then Done Abort w4
                            else if \<not> e_conout_ok e then Done Abort w4
                            else if testConerr args then
                              (let w5 = emit [CreateFileW Conerr] w4
                               in if \<not> e_conerr_ok e then Done Abort w5 else Next sz w5)
                            else Next sz w4)))" for w'
    by (simp add: Let_def grows_emit emit_emit split: option.splits)
  show ?thesis
    unfolding open_session_def
    apply (rule quiet_bind)
     apply (rule quiet_setupWin32Environment)
    apply (rule k)
    done
qed

lemma restore_loop_Next:
  "restore_loop junk is saved w = Next u w' \<Longrightarrow>
   w_trace w' = w_trace w @ map (\<lambda>i. Tcsetattr i (case mode saved ! i of Some t \<Rightarrow> t | None \<Rightarrow> junk))
                              (filter (\<lambda>i. valid saved ! i) is)"
proof (induction "is" arbitrary: w)
  case Nil
  then show ?case by simp
next
  case (Cons i "is")
  show ?case
  proof (cases "valid saved ! i")
    case False
    then show ?thesis using Cons by simp
  next
    case v: True
    let ?t = "case mode saved ! i of Some t \<Rightarrow> t | None \<Rightarrow> junk"
    obtain b w1 where s: "tcsetattr i ?t w = (b, w1)" by (cases "tcsetattr i ?t w")
    have tr: "w_trace w1 = w_trace w @ [Tcsetattr i ?t]"
      using s by (auto simp: tcsetattr_def emit_def Let_def split: if_splits)
    from Cons.prems v s have b: "b" and r: "restore_loop junk is saved w1 = Next u w'"
      by (cases b; simp)+
    show ?thesis
      using Cons.IH [OF r] tr v by simp
  qed
qed

lemma shutdown_sequence_Return:
  assumes "shutdown_sequence e hasErr saved w = (Return c, w')"
  shows "c = (case e_exit_code e of Some x \<Rightarrow> x | None \<Rightarrow> 1)"
    and "w_trace w' = w_trace w
           @ [WinptyFree, ShutdownPump InputPump, ShutdownPump OutputPump,
              CloseHandle Conin, CloseHandle Conout]
           @ (if hasErr then [ShutdownPump ErrorPump, DeletePump ErrorPump, CloseHandle Conerr] else [])
           @ map (\<lambda>i. Tcsetattr i (case mode saved ! i of Some t \<Rightarrow> t | None \<Rightarrow> e_junk e))
                 (filter (\<lambda>i. valid saved ! i) [0, 1, 2])
           @ [GetExitCodeProcess, CloseHandle ChildProcess]"
proof -
  let ?w1 = "emit [WinptyFree, ShutdownPump InputPump, ShutdownPump OutputPump,
                   CloseHandle Conin, CloseHandle Conout] w"
  let ?w2 = "if hasErr then emit [ShutdownPump ErrorPump, DeletePump ErrorPump, CloseHandle Conerr] ?w1
             else ?w1"
  have q: "quiet ?w2 (restoreTerminalMode (e_junk e) saved ?w2)"
    by (rule quiet_restoreTerminalMode)
  obtain u w3 where r: "restoreTerminalMode (e_junk e) saved ?w2 = Next u w3"
    and res: "(Return c, w') = (Return (case e_exit_code e of Some c \<Rightarrow> c | None \<Rightarrow> 1),
                emit [GetExitCodeProcess, CloseHandle ChildProcess] w3)"
  proof (cases "restoreTerminalMode (e_junk e) saved ?w2")
    case (Done r w3)
    with q have "\<not> is_return r" by simp
    moreover from assms Done have "r = Return c"
      by (simp add: shutdown_sequence_def Let_def)
    ultimately show ?thesis by simp
  next
    case (Next u w3)
    with assms that show ?thesis
      by (simp add: shutdown_sequence_def Let_def)
  qed
  from res show "c = (case e_exit_code e of Some x \<Rightarrow> x | None \<Rightarrow> 1)" by simp
  have "w_trace w3 = w_trace ?w2
          @ map (\<lambda>i. Tcsetattr i (case mode saved ! i of Some t \<Rightarrow> t | None \<Rightarrow> e_junk e))
                (filter (\<lambda>i. valid saved ! i) [0, 1, 2])"
    using r unfolding restoreTerminalMode_def by (rule restore_loop_Next)
  moreover have "w_trace ?w2 = w_trace w
           @ [WinptyFree, ShutdownPump InputPump, ShutdownPump OutputPump,
              CloseHandle Conin, CloseHandle Conout]
           @ (if hasErr then [ShutdownPump ErrorPump, DeletePump ErrorPump, CloseHandle Conerr] else [])"
    by (simp add: emit_def)
  moreover from res have "w_trace w' = w_trace w3 @ [GetExitCodeProcess, CloseHandle ChildProcess]"
    by (simp add: emit_def)
  ultimately show "w_trace w' = w_trace w
           @ [WinptyFree, ShutdownPump InputPump, ShutdownPump OutputPump,
              CloseHandle Conin, CloseHandle Conout]
           @ (if hasErr then [ShutdownPump ErrorPump, DeletePump ErrorPump, CloseHandle Conerr] else [])
           @ map (\<lambda>i. Tcsetattr i (case mode saved ! i of Some t \<Rightarrow> t | None \<Rightarrow> e_junk e))
                 (filter (\<lambda>i. valid saved ! i) [0, 1, 2])
           @ [GetExitCodeProcess, CloseHandle ChildProcess]"
    by (simp only: append_assoc)
qed

text \<open>A run that returns from main has gone through every phase.\<close>

lemma main_Return:
  assumes "main e w = (Return c, w')"
  obtains args :: Arguments and sz sz' saved w5 w6 w7 where
    "grows w w5"
    "setRawTerminalMode (e_termios e) (testAllowNonTtys args) True (testConerr args)
       (emit [SigactionWinch] w5) = Next saved w6"
    "mainLoop (testConerr args) (e_wakeups e) sz
       (emit ([StartPump InputPump, StartPump OutputPump]
              @ (if testConerr args then [StartPump ErrorPump] else [])) w6) = Next sz' w7"
    "shutdown_sequence e (testConerr args) saved w7 = (Return c, w')"
proof -
  let ?argv = "e_argv e"
  let ?w2 = "emit [NewWakeupFd] (emit [Setlocale] w)"
  have g2: "grows w ?w2" by (simp add: emit_emit grows_emit)
  from assms have nce: "(length ?argv \<ge> 3 \<and> ?argv ! 1 = ''--child-exec'') = False"
    by (auto simp: main_def Let_def split: if_splits)
  from assms have wk: "e_wakeup_ok e"
    unfolding main_def new_wakeup_def Let_def nce by (auto split: if_splits)
  let ?args0 = "\<lparr>childArgv = [], mouseInput = False, testAllowNonTtys = False,
                 testConerr = False, testPlainOutput = False, testColorEscapes = False\<rparr>"
  have m: "main e w =
      (case parseArguments e ?argv ?args0 ?w2 of
         Done r w3 \<Rightarrow> (r, w3)
       | Next args w3 \<Rightarrow>
           (case open_session e args w3 of
              Done r w4 \<Rightarrow> (r, w4)
            | Next sz w4 \<Rightarrow>
                (case spawn_child e args w4 of
                   Done r w5 \<Rightarrow> (r, w5)
                 | Next u w5 \<Rightarrow> run_session e args sz w5)))"
    unfolding main_def new_wakeup_def Let_def nce using wk by simp
  have q1: "quiet ?w2 (parseArguments e ?argv ?args0 ?w2)" by (rule quiet_parseArguments)
  obtain args w3 where p: "parseArguments e ?argv ?args0 ?w2 = Next args w3"
    using assms q1 unfolding m by (cases "parseArguments e ?argv ?args0 ?w2") auto
  have g3: "grows w w3" using q1 g2 unfolding p by (auto intro: grows_trans)
  have r1: "(case open_session e args w3 of
              Done r w4 \<Rightarrow> (r, w4)
            | Next sz w4 \<Rightarrow>
                (case spawn_child e args w4 of
                   Done r w5 \<Rightarrow> (r, w5)
                 | Next u w5 \<Rightarrow> run_session e args sz w5)) = (Return c, w')"
    using assms unfolding m p by simp
  have q2: "quiet w3 (open_session e args w3)" by (rule quiet_open_session)
  obtain sz w4 where os: "open_session e args w3 = Next sz w4"
    using r1 q2 by (cases "open_session e args w3") auto
  have g4: "grows w w4" using q2 g3 unfolding os by (auto intro: grows_trans)
  have r2: "(case spawn_child e args w4 of
                   Done r w5 \<Rightarrow> (r, w5)
                 | Next u w5 \<Rightarrow> run_session e args sz w5) = (Return c, w')"
    using r1 unfolding os by simp
  have q3: "quiet w4 (spawn_child e args w4)" by (rule quiet_spawn_child)
  obtain u w5 where sc: "spawn_child e args w4 = Next u w5"
    using r2 q3 by (cases "spawn_child e args w4") auto
  have g5: "grows w w5" using q3 g4 unfolding sc by (auto intro: grows_trans)
  have rs: "run_session e args sz w5 = (Return c, w')"
    using r2 unfolding sc by simp
  let ?w5' = "emit [SigactionWinch] w5"
  have q4: "quiet ?w5' (setRawTerminalMode (e_termios e) (testAllowNonTtys args) True (testConerr args) ?w5')"
    by (rule quiet_setRawTerminalMode)
  obtain saved w6 where sr: "setRawTerminalMode (e_termios e) (testAllowNonTtys args) True (testConerr args) ?w5' = Next saved w6"
    using rs q4 unfolding run_session_def
    by (cases "setRawTerminalMode (e_termios e) (testAllowNonTtys args) True (testConerr args) ?w5'") auto
  let ?w6' = "emit ([StartPump InputPump, StartPump OutputPump]
              @ (if testConerr args then [StartPump ErrorPump] else [])) w6"
  have q5: "quiet ?w6' (mainLoop (testConerr args) (e_wakeups e) sz ?w6')"
    by (rule quiet_mainLoop)
  have rs2: "(case mainLoop (testConerr args) (e_wakeups e) sz ?w6' of
                Done r w3 \<Rightarrow> (r, w3)
              | Next sz' w3 \<Rightarrow> shutdown_sequence e (testConerr args) saved w3) = (Return c, w')"
    using rs unfolding run_session_def sr Let_def by (simp only: step.case)
  obtain sz' w7 where ml: "mainLoop (testConerr args) (e_wakeups e) sz ?w6' = Next sz' w7"
    using rs2 q5 by (cases "mainLoop (testConerr args) (e_wakeups e) sz ?w6'") auto
  have sh: "shutdown_sequence e (testConerr args) saved w7 = (Return c, w')"
    using rs2 unfolding ml by (simp only: step.case)
  show thesis
    using that [OF g5 sr ml sh] .
qed

subsection \<open>The main loop\<close>

lemma mainLoop_step:
  "mainLoop hasErr (k # ks) sz w =
     (let w1 = emit ([SelectWakeup, WakeupReset]
                     @ (if probe k \<noteq> sz then [SetSize (ws_col (probe k)) (ws_row (probe k))] else [])) w
      in if finished hasErr k then Next (probe k) w1 else mainLoop hasErr ks (probe k) w1)"
  by (auto simp: Let_def finished_def emit_emit)

lemma resizes_append: "resizes (xs @ ys) = resizes xs @ resizes ys"
  by (induction xs rule: resizes.induct) simp_all

lemma mainLoop_last:
  "resizes (w_trace (step_world (mainLoop hasErr [k] sz w)))
     = resizes (w_trace w) @ (if probe k \<noteq> sz then [(ws_col (probe k), ws_row (probe k))] else [])"
  by (simp add: mainLoop_step Let_def emit_def resizes_append del: mainLoop.simps(2))

lemma mainLoop_more:
  "\<not> finished hasErr k \<Longrightarrow>
   mainLoop hasErr (k # ks) sz w
     = mainLoop hasErr ks (probe k)
         (emit ([SelectWakeup, WakeupReset]
                @ (if probe k \<noteq> sz then [SetSize (ws_col (probe k)) (ws_row (probe k))] else [])) w)"
  by (simp add: mainLoop_step Let_def del: mainLoop.simps(2))

subsection \<open>Terminal modes\<close>

lemma restored_append: "restored (xs @ ys) = restored xs @ restored ys"
  by (induction xs rule: restored.induct) simp_all

lemma tcsetattr_trace: "tcsetattr i t w = (b, w1) \<Longrightarrow> w_trace w1 = w_trace w @ [Tcsetattr i t]"
  by (auto simp: tcsetattr_def emit_def Let_def split: if_splits)

lemma tcgetattr_Some:
  "tcgetattr i w = (Some t, w1) \<Longrightarrow>
   t = w_attrs w (w_dev w i) \<and> w_tty w1 = w_tty w \<and> w_attrs w1 = w_attrs w \<and> w_dev w1 = w_dev w"
  by (auto simp: tcgetattr_def split: if_splits)

lemma restore_loop_events:
  "\<exists>es. w_trace (step_world (restore_loop junk is saved w)) = w_trace w @ es
      \<and> set (restored es) \<subseteq> {(i, t). i \<in> set is \<and> valid saved ! i
            \<and> t = (case mode saved ! i of Some t \<Rightarrow> t | None \<Rightarrow> junk)}"
proof (induction "is" arbitrary: w)
  case Nil
  show ?case by simp
next
  case (Cons i "is")
  show ?case
  proof (cases "valid saved ! i")
    case False
    then show ?thesis using Cons.IH [of w] by auto
  next
    case v: True
    let ?t = "case mode saved ! i of Some t \<Rightarrow> t | None \<Rightarrow> junk"
    obtain b w1 where s: "tcsetattr i ?t w = (b, w1)" by (cases "tcsetattr i ?t w")
    have tr: "w_trace w1 = w_trace w @ [Tcsetattr i ?t]" using s by (rule tcsetattr_trace)
    show ?thesis
    proof (cases b)
      case False
      then show ?thesis
        using v s tr by (simp add: emit_def)
    next
      case True
      from Cons.IH [of w1] obtain es where
        es: "w_trace (step_world (restore_loop junk is saved w1)) = w_trace w1 @ es"
        and sub: "set (restored es) \<subseteq> {(i, t). i \<in> set is \<and> valid saved ! i
            \<and> t = (case mode saved ! i of Some t \<Rightarrow> t | None \<Rightarrow> junk)}"
        by blast
      have "w_trace (step_world (restore_loop junk (i # is) saved w)) = w_trace w @ (Tcsetattr i ?t # es)"
        using v s True es tr by simp
      moreover have "set (restored (Tcsetattr i ?t # es)) \<subseteq> {(j, t). j \<in> set (i # is) \<and> valid saved ! j
            \<and> t = (case mode saved ! j of Some t \<Rightarrow> t | None \<Rightarrow> junk)}"
        using sub v by auto
      ultimately show ?thesis by blast
    qed
  qed
qed

lemma capture_loop_Next:
  assumes "capture_loop a is ret w = Next ret' w'"
    and "distinct is" and "\<forall>i \<in> set is. i < length (valid ret)"
    and "length (mode ret) = length (valid ret)"
  shows "length (valid ret') = length (valid ret) \<and> length (mode ret') = length (valid ret)
       \<and> (\<forall>j < length (valid ret).
             valid ret' ! j = (if j \<in> set is then valid ret ! j \<and> w_tty w j else valid ret ! j))
       \<and> (\<forall>j < length (valid ret).
             mode ret' ! j = (if j \<in> set is \<and> valid ret ! j \<and> w_tty w j
                              then Some (w_attrs w (w_dev w j)) else mode ret ! j))
       \<and> (\<forall>j \<in> set is. valid ret ! j \<and> \<not> w_tty w j \<longrightarrow> a)"
  using assms
proof (induction "is" arbitrary: ret w)
  case Nil
  then show ?case by simp
next
  case (Cons i "is")
  from Cons.prems have d: "distinct is" and ni: "i \<notin> set is"
    and il: "i < length (valid ret)" and bl: "\<forall>i \<in> set is. i < length (valid ret)"
    and ml: "length (mode ret) = length (valid ret)"
    by auto
  show ?case
  proof (cases "valid ret ! i")
    case False
    with Cons.prems(1) have r: "capture_loop a is ret w = Next ret' w'" by simp
    from Cons.IH [OF r d bl ml] False ni show ?thesis by auto
  next
    case v: True
    show ?thesis
    proof (cases "w_tty w i")
      case False
      let ?ret1 = "ret\<lparr>valid := (valid ret)[i := False]\<rparr>"
      from Cons.prems(1) v False have a: a and r: "capture_loop a is ?ret1 w = Next ret' w'"
        by (auto simp: Let_def split: if_splits)
      have bl1: "\<forall>i \<in> set is. i < length (valid ?ret1)" using bl by simp
      have ml1: "length (mode ?ret1) = length (valid ?ret1)" using ml by simp
      from Cons.IH [OF r d bl1 ml1] have
        l: "length (valid ret') = length (valid ret)" "length (mode ret') = length (valid ret)"
        and vj: "\<forall>j < length (valid ret).
             valid ret' ! j = (if j \<in> set is then valid ?ret1 ! j \<and> w_tty w j else valid ?ret1 ! j)"
        and mj: "\<forall>j < length (valid ret).
             mode ret' ! j = (if j \<in> set is \<and> valid ?ret1 ! j \<and> w_tty w j
                              then Some (w_attrs w (w_dev w j)) else mode ret ! j)"
        by simp_all
      have "\<forall>j < length (valid ret).
             valid ret' ! j = (if j \<in> set (i # is) then valid ret ! j \<and> w_tty w j else valid ret ! j)"
        using vj ni False il by (auto simp: nth_list_update)
      moreover have "\<forall>j < length (valid ret).
             mode ret' ! j = (if j \<in> set (i # is) \<and> valid ret ! j \<and> w_tty w j
                              then Some (w_attrs w (w_dev w j)) else mode ret ! j)"
        using mj ni False il by (auto simp: nth_list_update)
      ultimately show ?thesis using l a by simp
    next
      case True
      obtain r w1 where g: "tcgetattr i w = (r, w1)" by (cases "tcgetattr i w")
      from Cons.prems(1) v True g obtain t where rt: "r = Some t"
        by (cases r) (auto simp: Let_def)
      let ?ret1 = "ret\<lparr>valid := (valid ret)[i := True], mode := (mode ret)[i := Some t]\<rparr>"
      from Cons.prems(1) v True g rt have r: "capture_loop a is ?ret1 w1 = Next ret' w'"
        by (simp add: Let_def)
      from g rt have t: "t = w_attrs w (w_dev w i)" and same: "w_tty w1 = w_tty w"
        "w_attrs w1 = w_attrs w" "w_dev w1 = w_dev w"
        using tcgetattr_Some by blast+
      have veq: "(valid ret)[i := True] = valid ret"
        using v il by (metis list_update_id)
      have bl1: "\<forall>i \<in> set is. i < length (valid ?ret1)" using bl by simp
      have ml1: "length (mode ?ret1) = length (valid ?ret1)" using ml by simp
      from Cons.IH [OF r d bl1 ml1] have
        l: "length (valid ret') = length (valid ret)" "length (mode ret') = length (valid ret)"
        and vj: "\<forall>j < length (valid ret).
             valid ret' ! j = (if j \<in> set is then valid ret ! j \<and> w_tty w j else valid ret ! j)"
        and mj: "\<forall>j < length (valid ret).
             mode ret' ! j = (if j \<in> set is \<and> valid ret ! j \<and> w_tty w j
                              then Some (w_attrs w (w_dev w j)) else (mode ret)[i := Some t] ! j)"
        and aj: "\<forall>j \<in> set is. valid ret ! j \<and> \<not> w_tty w j \<longrightarrow> a"
        by (simp_all add: veq same)
      have "\<forall>j < length (valid ret).
             valid ret' ! j = (if j \<in> set (i # is) then valid ret ! j \<and> w_tty w j else valid ret ! j)"
        using vj ni True v by auto
      moreover have "\<forall>j < length (valid ret).
             mode ret' ! j = (if j \<in> set (i # is) \<and> valid ret ! j \<and> w_tty w j
                              then Some (w_attrs w (w_dev w j)) else mode ret ! j)"
        using mj ni True v il ml t by (auto simp: nth_list_update)
      ultimately show ?thesis using l aj True by simp
    qed
  qed
qed

lemma setRawTerminalMode_Next:
  assumes "setRawTerminalMode m a so se w = Next saved w'"
  shows "\<exists>w1. capture_loop a [0, 1, 2]
           \<lparr>count = None, valid = [True, so, se], mode = [None, None, None]\<rparr> w = Next saved w1"
  using assms unfolding setRawTerminalMode_def Let_def
  by (auto split: step.splits simp del: capture_loop.simps set_raw_outputs.simps)

subsection \<open>Phases that only add set-up events\<close>

lemma plain_refl [simp]: "plain w w"
proof -
  have "w = emit [] w \<and> list_all setup_event []" by (simp add: emit_def)
  then show ?thesis unfolding plain_def by blast
qed

lemma plain_emit: "list_all setup_event es \<Longrightarrow> plain w (emit es w)"
  unfolding plain_def by blast

lemma plain_trans: "plain a b \<Longrightarrow> plain b c \<Longrightarrow> plain a c"
  unfolding plain_def by (metis emit_emit list_all_append)

lemma plain_emit_after: "plain w w' \<Longrightarrow> list_all setup_event es \<Longrightarrow> plain w (emit es w')"
  by (rule plain_trans [OF _ plain_emit])

lemma plain_grows: "plain w w' \<Longrightarrow> grows w w'"
  by (auto simp: plain_def grows_def emit_def setup_event_def list_all_iff)

lemma plain_same:
  "plain w w' \<Longrightarrow> w_tty w' = w_tty w \<and> w_dev w' = w_dev w \<and> w_attrs w' = w_attrs w"
  by (auto simp: plain_def emit_def)

lemma plain_trace:
  "plain w w' \<Longrightarrow> \<exists>es. w_trace w' = w_trace w @ es \<and> list_all setup_event es"
  by (auto simp: plain_def emit_def)

lemma calm_mono: "plain w0 w \<Longrightarrow> calm w s \<Longrightarrow> calm w0 s"
  by (cases s) (auto intro: plain_trans)

lemma calm_bind:
  assumes "calm w s"
    and "\<And>x w'. s = Next x w' \<Longrightarrow> calm w' (k x w')"
  shows "calm w (case s of Done r w' \<Rightarrow> Done r w' | Next x w' \<Rightarrow> k x w')"
proof (cases s)
  case (Done r w')
  then show ?thesis by simp
next
  case (Next x w')
  then have "plain w w'" using assms(1) by simp
  then show ?thesis using Next assms(2) [OF Next] by (simp add: calm_mono)
qed

lemma calm_option_loop: "calm w (option_loop program args out d w)"
proof (induction args arbitrary: out d)
  case Nil
  show ?case by simp
next
  case (Cons arg rest)
  show ?case
    using Cons.IH by (simp add: usage_def)
qed

lemma calm_parseArguments: "calm w (parseArguments e argv out0 w)"
proof -
  have k: "calm w' (case x of (out1, doShowKeys, rest) \<Rightarrow>
             (let out2 = out1\<lparr>childArgv := childArgv out1 @ rest\<rparr>
              in if doShowKeys then
                   (case debugShowKey e (testAllowNonTtys out2) w' of
                      Done r w2 \<Rightarrow> Done r w2
                    | Next u w2 \<Rightarrow> Done (Exit 0) w2)
                 else if length (childArgv out2) = 0 then usage program 1 w'
                 else Next out2 w'))" for x w' program
  proof -
    obtain out1 doShowKeys rest where x: "x = (out1, doShowKeys, rest)" by (cases x)
    have "calm w' (case debugShowKey e a w' of Done r w2 \<Rightarrow> Done r w2 | Next u w2 \<Rightarrow> Done (Exit 0) w2)" for a
      by (cases "debugShowKey e a w'") simp_all
    from this [of "testAllowNonTtys out1"] show ?thesis
      by (cases doShowKeys) (simp_all add: x Let_def usage_def)
  qed
  show ?thesis
    unfolding parseArguments_def Let_def
    apply (rule calm_bind)
     apply (rule calm_option_loop)
    apply (rule k [unfolded Let_def])
    done
qed

lemma calm_copy_vars: "calm w (copy_vars e vs w)"
proof (induction vs arbitrary: w)
  case Nil
  show ?case by simp
next
  case (Cons v vs)
  obtain name val where v: "v = (name, val)" by (cases v)
  have "calm w (copy_vars e vs (emit [SetEnvironmentVariableW a b] w))" for a b
    by (rule calm_mono [OF _ Cons.IH]) (simp add: plain_emit setup_event_def)
  then show ?case
    by (simp add: v split: sum.splits)
qed

lemma calm_setupWin32Environment: "calm w (setupWin32Environment e w)"
proof -
  have g: "plain w (if e_sync_winenv e then emit [SyncWinEnv] w else w)"
    by (simp add: plain_emit setup_event_def)
  have "calm (if e_sync_winenv e then emit [SyncWinEnv] w else w) (setupWin32Environment e w)"
    unfolding setupWin32Environment_def Let_def
    apply (rule calm_bind)
     apply (rule calm_copy_vars)
    apply (simp add: plain_emit setup_event_def)
    done
  then show ?thesis using g by (rule calm_mono [rotated])
qed

lemma calm_spawn_child: "calm w (spawn_child e args w)"
  by (simp add: spawn_child_def Let_def plain_emit emit_emit setup_event_def
      split: option.splits sum.splits spawn_result.splits)

lemma calm_open_session: "calm w (open_session e args w)"
  unfolding open_session_def
  apply (rule calm_bind)
   apply (rule calm_setupWin32Environment)
  apply (simp add: Let_def plain_emit emit_emit setup_event_def split: option.splits)
  done

subsection \<open>What the raw-mode set-up and the loop add\<close>

lemma capture_loop_trace:
  "capture_loop a is ret w = Next ret' w' \<Longrightarrow> w_trace w' = w_trace w"
proof (induction "is" arbitrary: ret w)
  case Nil
  then show ?case by simp
next
  case (Cons i "is")
  show ?case
  proof (cases "valid ret ! i")
    case False
    then show ?thesis using Cons by simp
  next
    case v: True
    show ?thesis
    proof (cases "w_tty w i")
      case False
      then show ?thesis
        using v Cons by (auto simp: Let_def split: if_splits)
    next
      case True
      obtain r w1 where g: "tcgetattr i w = (r, w1)" by (cases "tcgetattr i w")
      have t: "w_trace w1 = w_trace w"
        using g by (auto simp: tcgetattr_def split: if_splits)
      show ?thesis
        using v True g t Cons by (cases r) (auto simp: Let_def)
    qed
  qed
qed

lemma set_raw_input_trace:
  "set_raw_input m ret w = Next u w' \<Longrightarrow>
   \<exists>es. w_trace w' = w_trace w @ es \<and> list_all is_Tcsetattr es"
  by (auto simp: set_raw_input_def tcgetattr_def tcsetattr_def emit_def Let_def
      split: if_splits)

lemma set_raw_outputs_trace:
  "set_raw_outputs m is ret w = Next u w' \<Longrightarrow>
   \<exists>es. w_trace w' = w_trace w @ es \<and> list_all is_Tcsetattr es"
proof (induction "is" arbitrary: w)
  case Nil
  then show ?case by simp
next
  case (Cons i "is")
  show ?case
  proof (cases "valid ret ! i")
    case False
    then show ?thesis using Cons by simp
  next
    case v: True
    obtain r w1 where g: "tcgetattr i w = (r, w1)" by (cases "tcgetattr i w")
    have t1: "w_trace w1 = w_trace w"
      using g by (auto simp: tcgetattr_def split: if_splits)
    from Cons.prems v g obtain buf where r: "r = Some buf" by (cases r) auto
    obtain b w2 where s: "tcsetattr i (raw_output_mode m buf) w1 = (b, w2)"
      by (cases "tcsetattr i (raw_output_mode m buf) w1")
    have t2: "w_trace w2 = w_trace w1 @ [Tcsetattr i (raw_output_mode m buf)]"
      using s by (rule tcsetattr_trace)
    from Cons.prems v g r s have n: "set_raw_outputs m is ret w2 = Next u w'"
      by (cases b) auto
    from Cons.IH [OF n] obtain es where "w_trace w' = w_trace w2 @ es" "list_all is_Tcsetattr es"
      by blast
    then have "w_trace w' = w_trace w @ (Tcsetattr i (raw_output_mode m buf) # es)
        \<and> list_all is_Tcsetattr (Tcsetattr i (raw_output_mode m buf) # es)"
      using t1 t2 by simp
    then show ?thesis by blast
  qed
qed

lemma setRawTerminalMode_trace:
  assumes "setRawTerminalMode m a so se w = Next saved w'"
  shows "\<exists>es. w_trace w' = w_trace w @ es \<and> list_all is_Tcsetattr es"
proof -
  let ?ret = "\<lparr>count = None, valid = [True, so, se], mode = [None, None, None]\<rparr>"
  from assms obtain w1 where c: "capture_loop a [0, 1, 2] ?ret w = Next saved w1"
    using setRawTerminalMode_Next by blast
  from assms obtain u w2 where i: "set_raw_input m saved w1 = Next u w2"
    unfolding setRawTerminalMode_def Let_def c
    by (cases "set_raw_input m saved w1") (simp_all only: step.case step.distinct)
  from assms have o: "set_raw_outputs m [1, 2] saved w2 = Next () w'"
    unfolding setRawTerminalMode_def Let_def c
    by (cases "set_raw_outputs m [1, 2] saved w2")
       (simp_all only: step.case i step.distinct step.inject, simp)
  from capture_loop_trace [OF c] have t1: "w_trace w1 = w_trace w" .
  from set_raw_input_trace [OF i] obtain es2 where
    t2: "w_trace w2 = w_trace w1 @ es2" "list_all is_Tcsetattr es2" by blast
  from set_raw_outputs_trace [OF o] obtain es3 where
    t3: "w_trace w' = w_trace w2 @ es3" "list_all is_Tcsetattr es3" by blast
  have "w_trace w' = w_trace w @ (es2 @ es3) \<and> list_all is_Tcsetattr (es2 @ es3)"
    using t1 t2 t3 by simp
  then show ?thesis by blast
qed

lemma mainLoop_events:
  "mainLoop hasErr ks sz w = Next sz' w' \<Longrightarrow>
   \<exists>es. w_trace w' = w_trace w @ es \<and> list_all loop_event es"
proof (induction ks arbitrary: sz w)
  case Nil
  then show ?case by simp
next
  case (Cons k ks)
  let ?w1 = "emit ([SelectWakeup, WakeupReset]
                   @ (if probe k \<noteq> sz then [SetSize (ws_col (probe k)) (ws_row (probe k))] else [])) w"
  show ?case
  proof (cases "finished hasErr k")
    case True
    with Cons.prems have "w' = ?w1"
      by (auto simp add: mainLoop_step Let_def simp del: mainLoop.simps(2))
    then have "w_trace w' = w_trace w @ ([SelectWakeup, WakeupReset]
                   @ (if probe k \<noteq> sz then [SetSize (ws_col (probe k)) (ws_row (probe k))] else []))
        \<and> list_all loop_event ([SelectWakeup, WakeupReset]
                   @ (if probe k \<noteq> sz then [SetSize (ws_col (probe k)) (ws_row (probe k))] else []))"
      by (simp add: emit_def)
    then show ?thesis by blast
  next
    case False
    with Cons.prems have n: "mainLoop hasErr ks (probe k) ?w1 = Next sz' w'"
      by (simp add: mainLoop_step Let_def del: mainLoop.simps(2))
    from Cons.IH [OF n] obtain es where "w_trace w' = w_trace ?w1 @ es" "list_all loop_event es"
      by blast
    then have "w_trace w' = w_trace w @ (([SelectWakeup, WakeupReset]
                   @ (if probe k \<noteq> sz then [SetSize (ws_col (probe k)) (ws_row (probe k))] else [])) @ es)
        \<and> list_all loop_event (([SelectWakeup, WakeupReset]
                   @ (if probe k \<noteq> sz then [SetSize (ws_col (probe k)) (ws_row (probe k))] else [])) @ es)"
      by (simp add: emit_def)
    then show ?thesis by blast
  qed
qed

lemma setRawTerminalMode_snapshot:
  assumes sr: "setRawTerminalMode m allowNonTtys setStdout setStderr w = Next saved w'"
  shows "\<forall>i < 3. valid saved ! i = ([True, setStdout, setStderr] ! i \<and> w_tty w i)
          \<and> (valid saved ! i \<longrightarrow> mode saved ! i = Some (w_attrs w (w_dev w i)))"
proof -
  let ?ret = "\<lparr>count = None, valid = [True, setStdout, setStderr], mode = [None, None, None]\<rparr>"
  from setRawTerminalMode_Next [OF sr] obtain w1 where
    c: "capture_loop allowNonTtys [0, 1, 2] ?ret w = Next saved w1" by blast
  have s3: "set [0, 1, 2] = {i. i < (3::nat)}" by auto
  from capture_loop_Next [OF c] have
    vj: "\<forall>j < 3. valid saved ! j = (if j \<in> set [0, 1, 2] then [True, setStdout, setStderr] ! j \<and> w_tty w j
                                    else [True, setStdout, setStderr] ! j)"
    and mj: "\<forall>j < 3. mode saved ! j = (if j \<in> set [0, 1, 2] \<and> [True, setStdout, setStderr] ! j \<and> w_tty w j
                              then Some (w_attrs w (w_dev w j)) else [None, None, None] ! j)"
    by simp_all
  show ?thesis
    using vj mj unfolding s3 by auto
qed

subsection \<open>The shutdown sequence, whichever way the restore ends\<close>

lemma restore_loop_Done:
  "restore_loop junk is saved w = Done r w' \<Longrightarrow>
   r = Exit 1 \<and>
   (\<exists>n. 0 < n \<and>
      w_trace w' = w_trace w
        @ map (\<lambda>i. Tcsetattr i (case mode saved ! i of Some t \<Rightarrow> t | None \<Rightarrow> junk))
              (take n (filter (\<lambda>i. valid saved ! i) is))
        @ [Perror ''error restoring terminal mode''])"
proof (induction "is" arbitrary: w)
  case Nil
  then show ?case by simp
next
  case (Cons i "is")
  show ?case
  proof (cases "valid saved ! i")
    case False
    then show ?thesis using Cons by simp
  next
    case v: True
    let ?t = "case mode saved ! i of Some t \<Rightarrow> t | None \<Rightarrow> junk"
    let ?f = "\<lambda>i. Tcsetattr i (case mode saved ! i of Some t \<Rightarrow> t | None \<Rightarrow> junk)"
    obtain b w1 where s: "tcsetattr i ?t w = (b, w1)" by (cases "tcsetattr i ?t w")
    have tr: "w_trace w1 = w_trace w @ [Tcsetattr i ?t]" using s by (rule tcsetattr_trace)
    show ?thesis
    proof (cases b)
      case False
      with Cons.prems v s have "r = Exit 1"
        and "w' = emit [Perror ''error restoring terminal mode''] w1"
        by simp_all
      then have "r = Exit 1 \<and> 0 < (1::nat) \<and>
          w_trace w' = w_trace w @ map ?f (take 1 (filter (\<lambda>i. valid saved ! i) (i # is)))
            @ [Perror ''error restoring terminal mode'']"
        using tr v by (simp add: emit_def)
      then show ?thesis by blast
    next
      case True
      with Cons.prems v s have d: "restore_loop junk is saved w1 = Done r w'"
        by simp
      from Cons.IH [OF d] obtain n where r: "r = Exit 1" and n: "0 < n"
        and t: "w_trace w' = w_trace w1 @ map ?f (take n (filter (\<lambda>i. valid saved ! i) is))
            @ [Perror ''error restoring terminal mode'']"
        by blast
      have "r = Exit 1 \<and> 0 < Suc n \<and>
          w_trace w' = w_trace w @ map ?f (take (Suc n) (filter (\<lambda>i. valid saved ! i) (i # is)))
            @ [Perror ''error restoring terminal mode'']"
        using r t tr v by simp
      then show ?thesis by blast
    qed
  qed
qed

lemma shutdown_sequence_cases:
  assumes "shutdown_sequence e hasErr saved w = (r, w')"
  shows "\<exists>n. w_trace w' = w_trace w
           @ [WinptyFree, ShutdownPump InputPump, ShutdownPump OutputPump,
              CloseHandle Conin, CloseHandle Conout]
           @ (if hasErr then [ShutdownPump ErrorPump, DeletePump ErrorPump, CloseHandle Conerr] else [])
           @ map (\<lambda>i. Tcsetattr i (case mode saved ! i of Some t \<Rightarrow> t | None \<Rightarrow> e_junk e))
                 (take n (filter (\<lambda>i. valid saved ! i) [0, 1, 2]))
           @ (if is_return r then [GetExitCodeProcess, CloseHandle ChildProcess]
              else [Perror ''error restoring terminal mode''])
         \<and> (if is_return r
             then r = Return (case e_exit_code e of Some x \<Rightarrow> x | None \<Rightarrow> 1) \<and> n = 3
             else r = Exit 1 \<and> 0 < n)"
proof -
  let ?w1 = "emit [WinptyFree, ShutdownPump InputPump, ShutdownPump OutputPump,
                   CloseHandle Conin, CloseHandle Conout] w"
  let ?w2 = "if hasErr then emit [ShutdownPump ErrorPump, DeletePump ErrorPump, CloseHandle Conerr] ?w1
             else ?w1"
  let ?f = "\<lambda>i. Tcsetattr i (case mode saved ! i of Some t \<Rightarrow> t | None \<Rightarrow> e_junk e)"
  let ?V = "filter (\<lambda>i. valid saved ! i) [0, 1, 2]"
  have t2: "w_trace ?w2 = w_trace w
           @ [WinptyFree, ShutdownPump InputPump, ShutdownPump OutputPump,
              CloseHandle Conin, CloseHandle Conout]
           @ (if hasErr then [ShutdownPump ErrorPump, DeletePump ErrorPump, CloseHandle Conerr] else [])"
    by (simp add: emit_def)
  have len: "length ?V \<le> 3" by simp
  show ?thesis
  proof (cases "restore_loop (e_junk e) [0, 1, 2] saved ?w2")
    case (Done r0 w3)
    with assms have rw: "r = r0" "w' = w3"
      by (simp_all add: shutdown_sequence_def restoreTerminalMode_def Let_def
          del: restore_loop.simps)
    from restore_loop_Done [OF Done] obtain n where r0: "r0 = Exit 1" and n: "0 < n"
      and t: "w_trace w3 = w_trace ?w2 @ map ?f (take n ?V)
            @ [Perror ''error restoring terminal mode'']"
      by blast
    have "w_trace w' = w_trace w
           @ [WinptyFree, ShutdownPump InputPump, ShutdownPump OutputPump,
              CloseHandle Conin, CloseHandle Conout]
           @ (if hasErr then [ShutdownPump ErrorPump, DeletePump ErrorPump, CloseHandle Conerr] else [])
           @ map ?f (take n ?V)
           @ (if is_return r then [GetExitCodeProcess, CloseHandle ChildProcess]
              else [Perror ''error restoring terminal mode''])
         \<and> (if is_return r
             then r = Return (case e_exit_code e of Some x \<Rightarrow> x | None \<Rightarrow> 1) \<and> n = 3
             else r = Exit 1 \<and> 0 < n)"
      unfolding rw r0 t t2 using n by simp
    then show ?thesis by blast
  next
    case (Next u w3)
    with assms have r: "r = Return (case e_exit_code e of Some x \<Rightarrow> x | None \<Rightarrow> 1)"
      and w': "w' = emit [GetExitCodeProcess, CloseHandle ChildProcess] w3"
      by (simp_all add: shutdown_sequence_def restoreTerminalMode_def Let_def
          del: restore_loop.simps)
    from restore_loop_Next [OF Next] have t: "w_trace w3 = w_trace ?w2 @ map ?f ?V" .
    have tk: "take 3 ?V = ?V" using len by simp
    have "w_trace w' = w_trace w
           @ [WinptyFree, ShutdownPump InputPump, ShutdownPump OutputPump,
              CloseHandle Conin, CloseHandle Conout]
           @ (if hasErr then [ShutdownPump ErrorPump, DeletePump ErrorPump, CloseHandle Conerr] else [])
           @ map ?f (take 3 ?V)
           @ (if is_return r then [GetExitCodeProcess, CloseHandle ChildProcess]
              else [Perror ''error restoring terminal mode''])
         \<and> (if is_return r
             then r = Return (case e_exit_code e of Some x \<Rightarrow> x | None \<Rightarrow> 1) \<and> (3::nat) = 3
             else r = Exit 1 \<and> 0 < (3::nat))"
      unfolding tk w' using r t t2 by (simp add: emit_def)
    then show ?thesis by blast
  qed
qed


subsection \<open>Runs that reach the shutdown\<close>


lemma unfreed_refl [simp]: "unfreed w w"
  by (simp add: unfreed_def)

lemma unfreed_trans: "unfreed a b \<Longrightarrow> unfreed b c \<Longrightarrow> unfreed a c"
  by (auto simp: unfreed_def)

lemma unfreed_grows: "grows w w' \<Longrightarrow> unfreed w w'"
proof -
  assume "grows w w'"
  then obtain es where t: "w_trace w' = w_trace w @ es"
    and a: "\<forall>ev \<in> set es. \<not> pump_or_teardown ev"
    by (auto simp: grows_def list_all_iff)
  have "WinptyFree \<notin> set es"
  proof
    assume "WinptyFree \<in> set es"
    with a have "\<not> pump_or_teardown WinptyFree" by (rule bspec)
    then show False by simp
  qed
  with t show ?thesis unfolding unfreed_def by blast
qed

lemma unfreed_emit: "WinptyFree \<notin> set es \<Longrightarrow> unfreed w (emit es w)"
  by (simp add: unfreed_def emit_def)

lemma unfreed_new: "unfreed w w' \<Longrightarrow> WinptyFree \<notin> set (new_events w w')"
  by (auto simp: unfreed_def new_events_def)

lemma quiet_Done_unfreed:
  "quiet w s \<Longrightarrow> s = Done r w' \<Longrightarrow> unfreed w0 w \<Longrightarrow> unfreed w0 w'"
  by (auto intro: unfreed_trans unfreed_grows)

lemma quiet_Next_unfreed:
  "quiet w s \<Longrightarrow> s = Next x w' \<Longrightarrow> unfreed w0 w \<Longrightarrow> unfreed w0 w'"
  by (auto intro: unfreed_trans unfreed_grows)

lemma main_shutdown:
  assumes "main e w = (r, w')"
    and "WinptyFree \<in> set (new_events w w')"
  obtains args :: Arguments and sz sz' saved w5 w6 w7 where
    "plain w w5"
    "setRawTerminalMode (e_termios e) (testAllowNonTtys args) True (testConerr args)
       (emit [SigactionWinch] w5) = Next saved w6"
    "mainLoop (testConerr args) (e_wakeups e) sz
       (emit ([StartPump InputPump, StartPump OutputPump]
              @ (if testConerr args then [StartPump ErrorPump] else [])) w6) = Next sz' w7"
    "shutdown_sequence e (testConerr args) saved w7 = (r, w')"
proof -
  let ?argv = "e_argv e"
  let ?w2 = "emit [NewWakeupFd] (emit [Setlocale] w)"
  have p2: "plain w ?w2" by (simp add: emit_emit plain_emit setup_event_def)
  have u2: "unfreed w ?w2" by (simp add: emit_emit unfreed_emit)
  have nf: "\<not> unfreed w w'" using assms(2) unfreed_new by blast
  have nce: "(length ?argv \<ge> 3 \<and> ?argv ! 1 = ''--child-exec'') = False"
  proof (rule ccontr)
    assume "(length ?argv \<ge> 3 \<and> ?argv ! 1 = ''--child-exec'') \<noteq> False"
    then have c: "length ?argv \<ge> 3 \<and> ?argv ! 1 = ''--child-exec''" by simp
    have "unfreed w w'"
      using assms(1) c by (auto simp: main_def Let_def emit_emit unfreed_emit split: if_splits)
    with nf show False ..
  qed
  have wk: "e_wakeup_ok e"
  proof (rule ccontr)
    assume "\<not> e_wakeup_ok e"
    then have "unfreed w w'"
      using assms(1) unfolding main_def new_wakeup_def Let_def nce
      by (auto simp: emit_emit unfreed_emit split: if_splits)
    with nf show False ..
  qed
  let ?args0 = "\<lparr>childArgv = [], mouseInput = False, testAllowNonTtys = False,
                 testConerr = False, testPlainOutput = False, testColorEscapes = False\<rparr>"
  have m: "main e w =
      (case parseArguments e ?argv ?args0 ?w2 of
         Done r w3 \<Rightarrow> (r, w3)
       | Next args w3 \<Rightarrow>
           (case open_session e args w3 of
              Done r w4 \<Rightarrow> (r, w4)
            | Next sz w4 \<Rightarrow>
                (case spawn_child e args w4 of
                   Done r w5 \<Rightarrow> (r, w5)
                 | Next u w5 \<Rightarrow> run_session e args sz w5)))"
    unfolding main_def new_wakeup_def Let_def nce using wk by simp
  have q1: "quiet ?w2 (parseArguments e ?argv ?args0 ?w2)" by (rule quiet_parseArguments)
  have c1: "calm ?w2 (parseArguments e ?argv ?args0 ?w2)" by (rule calm_parseArguments)
  obtain args w3 where p: "parseArguments e ?argv ?args0 ?w2 = Next args w3"
  proof (cases "parseArguments e ?argv ?args0 ?w2")
    case (Done r0 w3)
    then have "w' = w3" using assms(1) unfolding m by simp
    with quiet_Done_unfreed [OF q1 Done u2] nf have False by simp
    then show ?thesis ..
  next
    case (Next args w3)
    then show ?thesis by (rule that)
  qed
  have u3: "unfreed w w3" by (rule quiet_Next_unfreed [OF q1 p u2])
  have p3: "plain w w3" using c1 p2 unfolding p by (auto intro: plain_trans)
  have r1: "(case open_session e args w3 of
              Done r w4 \<Rightarrow> (r, w4)
            | Next sz w4 \<Rightarrow>
                (case spawn_child e args w4 of
                   Done r w5 \<Rightarrow> (r, w5)
                 | Next u w5 \<Rightarrow> run_session e args sz w5)) = (r, w')"
    using assms(1) unfolding m p by simp
  have q2: "quiet w3 (open_session e args w3)" by (rule quiet_open_session)
  have c2: "calm w3 (open_session e args w3)" by (rule calm_open_session)
  obtain sz w4 where os: "open_session e args w3 = Next sz w4"
  proof (cases "open_session e args w3")
    case (Done r0 w4)
    then have "w' = w4" using r1 by simp
    with quiet_Done_unfreed [OF q2 Done u3] nf have False by simp
    then show ?thesis ..
  next
    case (Next sz w4)
    then show ?thesis by (rule that)
  qed
  have u4: "unfreed w w4" by (rule quiet_Next_unfreed [OF q2 os u3])
  have p4: "plain w w4" using c2 p3 unfolding os by (auto intro: plain_trans)
  have r2: "(case spawn_child e args w4 of
                   Done r w5 \<Rightarrow> (r, w5)
                 | Next u w5 \<Rightarrow> run_session e args sz w5) = (r, w')"
    using r1 unfolding os by simp
  have q3: "quiet w4 (spawn_child e args w4)" by (rule quiet_spawn_child)
  have c3: "calm w4 (spawn_child e args w4)" by (rule calm_spawn_child)
  obtain u w5 where sc: "spawn_child e args w4 = Next u w5"
  proof (cases "spawn_child e args w4")
    case (Done r0 w5)
    then have "w' = w5" using r2 by simp
    with quiet_Done_unfreed [OF q3 Done u4] nf have False by simp
    then show ?thesis ..
  next
    case (Next u w5)
    then show ?thesis by (rule that)
  qed
  have u5: "unfreed w w5" by (rule quiet_Next_unfreed [OF q3 sc u4])
  have p5: "plain w w5" using c3 p4 unfolding sc by (auto intro: plain_trans)
  have rs: "run_session e args sz w5 = (r, w')"
    using r2 unfolding sc by simp
  let ?w5' = "emit [SigactionWinch] w5"
  have u5': "unfreed w ?w5'" by (rule unfreed_trans [OF u5 unfreed_emit]) simp
  have q4: "quiet ?w5' (setRawTerminalMode (e_termios e) (testAllowNonTtys args) True (testConerr args) ?w5')"
    by (rule quiet_setRawTerminalMode)
  obtain saved w6 where sr: "setRawTerminalMode (e_termios e) (testAllowNonTtys args) True (testConerr args) ?w5' = Next saved w6"
  proof (cases "setRawTerminalMode (e_termios e) (testAllowNonTtys args) True (testConerr args) ?w5'")
    case (Done r0 w6)
    then have "w' = w6" using rs unfolding run_session_def by simp
    with quiet_Done_unfreed [OF q4 Done u5'] nf have False by simp
    then show ?thesis ..
  next
    case (Next saved w6)
    then show ?thesis by (rule that)
  qed
  have u6: "unfreed w w6" by (rule quiet_Next_unfreed [OF q4 sr u5'])
  let ?w6' = "emit ([StartPump InputPump, StartPump OutputPump]
              @ (if testConerr args then [StartPump ErrorPump] else [])) w6"
  have u6': "unfreed w ?w6'" by (rule unfreed_trans [OF u6 unfreed_emit]) simp
  have q5: "quiet ?w6' (mainLoop (testConerr args) (e_wakeups e) sz ?w6')"
    by (rule quiet_mainLoop)
  have rs2: "(case mainLoop (testConerr args) (e_wakeups e) sz ?w6' of
                Done r w3 \<Rightarrow> (r, w3)
              | Next sz' w3 \<Rightarrow> shutdown_sequence e (testConerr args) saved w3) = (r, w')"
    using rs unfolding run_session_def sr Let_def by (simp only: step.case)
  obtain sz' w7 where ml: "mainLoop (testConerr args) (e_wakeups e) sz ?w6' = Next sz' w7"
  proof (cases "mainLoop (testConerr args) (e_wakeups e) sz ?w6'")
    case (Done r0 w7)
    then have "w' = w7" using rs2 by simp
    with quiet_Done_unfreed [OF q5 Done u6'] nf have False by simp
    then show ?thesis ..
  next
    case (Next sz' w7)
    then show ?thesis by (rule that)
  qed
  have sh: "shutdown_sequence e (testConerr args) saved w7 = (r, w')"
    using rs2 unfolding ml by (simp only: step.case)
  show thesis
    using that [OF p5 sr ml sh] .
qed

text \<open>The whole trace of a run that reaches the shutdown.\<close>

lemma main_shutdown_trace:
  assumes "main e w = (r, w')"
    and "WinptyFree \<in> set (new_events w w')"
  shows "\<exists>pre raw hasErr loop n.
     w_trace w' = w_trace w @ pre @ [SigactionWinch] @ raw
        @ [StartPump InputPump, StartPump OutputPump]
        @ (if hasErr then [StartPump ErrorPump] else [])
        @ loop
        @ [WinptyFree]
        @ [ShutdownPump InputPump, ShutdownPump OutputPump, CloseHandle Conin, CloseHandle Conout]
        @ (if hasErr then [ShutdownPump ErrorPump, DeletePump ErrorPump, CloseHandle Conerr] else [])
        @ map (\<lambda>i. Tcsetattr i (w_attrs w (w_dev w i)))
              (take n (filter (\<lambda>i. [True, True, hasErr] ! i \<and> w_tty w i) [0, 1, 2]))
        @ (if is_return r then [GetExitCodeProcess, CloseHandle ChildProcess]
           else [Perror ''error restoring terminal mode''])
     \<and> list_all setup_event pre \<and> list_all is_Tcsetattr raw \<and> list_all loop_event loop
     \<and> (if is_return r
         then r = Return (case e_exit_code e of Some x \<Rightarrow> x | None \<Rightarrow> 1) \<and> n = 3
         else r = Exit 1 \<and> 0 < n)"
proof -
  from assms obtain args :: Arguments and sz sz' saved w5 w6 w7 where
    p5: "plain w w5"
    and sr: "setRawTerminalMode (e_termios e) (testAllowNonTtys args) True (testConerr args)
       (emit [SigactionWinch] w5) = Next saved w6"
    and ml: "mainLoop (testConerr args) (e_wakeups e) sz
       (emit ([StartPump InputPump, StartPump OutputPump]
              @ (if testConerr args then [StartPump ErrorPump] else [])) w6) = Next sz' w7"
    and sh: "shutdown_sequence e (testConerr args) saved w7 = (r, w')"
    by (rule main_shutdown)
  let ?h = "testConerr args"
  let ?w5' = "emit [SigactionWinch] w5"
  from plain_trace [OF p5] obtain pre where
    t5: "w_trace w5 = w_trace w @ pre" and pre: "list_all setup_event pre" by blast
  have same: "w_tty ?w5' = w_tty w" "w_dev ?w5' = w_dev w" "w_attrs ?w5' = w_attrs w"
    using plain_same [OF p5] by (simp_all add: emit_def)
  from setRawTerminalMode_trace [OF sr] obtain raw where
    t6: "w_trace w6 = w_trace ?w5' @ raw" and raw: "list_all is_Tcsetattr raw" by blast
  from mainLoop_events [OF ml] obtain loop where
    t7: "w_trace w7 = w_trace (emit ([StartPump InputPump, StartPump OutputPump]
              @ (if ?h then [StartPump ErrorPump] else [])) w6) @ loop"
    and loop: "list_all loop_event loop" by blast
  from shutdown_sequence_cases [OF sh] obtain n where
    t8: "w_trace w' = w_trace w7
           @ [WinptyFree, ShutdownPump InputPump, ShutdownPump OutputPump,
              CloseHandle Conin, CloseHandle Conout]
           @ (if ?h then [ShutdownPump ErrorPump, DeletePump ErrorPump, CloseHandle Conerr] else [])
           @ map (\<lambda>i. Tcsetattr i (case mode saved ! i of Some t \<Rightarrow> t | None \<Rightarrow> e_junk e))
                 (take n (filter (\<lambda>i. valid saved ! i) [0, 1, 2]))
           @ (if is_return r then [GetExitCodeProcess, CloseHandle ChildProcess]
              else [Perror ''error restoring terminal mode''])"
    and out: "if is_return r
             then r = Return (case e_exit_code e of Some x \<Rightarrow> x | None \<Rightarrow> 1) \<and> n = 3
             else r = Exit 1 \<and> 0 < n"
    by blast
  from setRawTerminalMode_snapshot [OF sr] have snap:
    "\<forall>i<3. valid saved ! i = ([True, True, ?h] ! i \<and> w_tty ?w5' i)
          \<and> (valid saved ! i \<longrightarrow> mode saved ! i = Some (w_attrs ?w5' (w_dev ?w5' i)))"
    by blast
  have fl: "filter (\<lambda>i. valid saved ! i) [0, 1, 2]
      = filter (\<lambda>i. [True, True, ?h] ! i \<and> w_tty w i) [0, 1, 2]"
    by (rule filter_cong) (use snap same in auto)
  have mp: "map (\<lambda>i. Tcsetattr i (case mode saved ! i of Some t \<Rightarrow> t | None \<Rightarrow> e_junk e))
                 (take n (filter (\<lambda>i. [True, True, ?h] ! i \<and> w_tty w i) [0, 1, 2]))
      = map (\<lambda>i. Tcsetattr i (w_attrs w (w_dev w i)))
                 (take n (filter (\<lambda>i. [True, True, ?h] ! i \<and> w_tty w i) [0, 1, 2]))"
  proof (rule map_cong [OF refl])
    fix i assume "i \<in> set (take n (filter (\<lambda>i. [True, True, ?h] ! i \<and> w_tty w i) [0, 1, 2]))"
    then have "i \<in> set (filter (\<lambda>i. [True, True, ?h] ! i \<and> w_tty w i) [0, 1, 2])"
      by (rule in_set_takeD)
    then have "i \<in> set (filter (\<lambda>i. valid saved ! i) [0, 1, 2])" by (simp only: fl)
    then have "i \<in> set [0, 1, 2] \<and> valid saved ! i" by (simp only: set_filter mem_Collect_eq)
    then have "i < 3" "valid saved ! i" by auto
    with snap same show "Tcsetattr i (case mode saved ! i of Some t \<Rightarrow> t | None \<Rightarrow> e_junk e)
        = Tcsetattr i (w_attrs w (w_dev w i))"
      by simp
  qed
  note t8' = t8 [unfolded fl, unfolded mp]
  have "w_trace w' = w_trace w @ pre @ [SigactionWinch] @ raw
        @ [StartPump InputPump, StartPump OutputPump]
        @ (if ?h then [StartPump ErrorPump] else [])
        @ loop
        @ [WinptyFree]
        @ [ShutdownPump InputPump, ShutdownPump OutputPump, CloseHandle Conin, CloseHandle Conout]
        @ (if ?h then [ShutdownPump ErrorPump, DeletePump ErrorPump, CloseHandle Conerr] else [])
        @ map (\<lambda>i. Tcsetattr i (w_attrs w (w_dev w i)))
              (take n (filter (\<lambda>i. [True, True, ?h] ! i \<and> w_tty w i) [0, 1, 2]))
        @ (if is_return r then [GetExitCodeProcess, CloseHandle ChildProcess]
           else [Perror ''error restoring terminal mode''])"
    unfolding t8' t7 by (simp add: emit_def t6 t5)
  with pre raw loop out show ?thesis by blast
qed

section \<open>Evaluation of the example run\<close>

lemmas run_defs = main_def new_wakeup_def parseArguments_def open_session_def spawn_child_def run_session_def
  shutdown_sequence_def setupWin32Environment_def setRawTerminalMode_def set_raw_input_def
  restoreTerminalMode_def tcgetattr_def tcsetattr_def emit_def heapMbsToWcs_def
  size_t_minus_one_def usage_def Let_def

lemmas demo_defs = demo_env_def demo_world_def demo_macros_def tick_def geom_def widen_def
  ascii_mbstowcs_def

lemma demo_cmdline: "argvToCommandLine [''cmd''] = Some ''cmd''"
  by (simp add: argvToCommandLine_def encode_one_def c_str_def quote_needed_def)

lemma demo_c_str: "c_str ''cmd'' = ''cmd''"
  by (simp add: c_str_def)




lemma demo_run_conerr:
  "fst (main (demo_env\<lparr>e_argv := [''winpty'', ''-Xconerr'', ''cmd'']\<rparr>) demo_world) = Return 7"
  by (simp add: run_defs demo_defs demo_cmdline demo_c_str)

lemma demo_run_conerr_free:
  "WinptyFree \<in> set (new_events demo_world
      (snd (main (demo_env\<lparr>e_argv := [''winpty'', ''-Xconerr'', ''cmd'']\<rparr>) demo_world)))"
  by (simp add: run_defs demo_defs demo_cmdline demo_c_str new_events_def)




lemma demo_resizes: "resizes (w_trace (snd (main demo_env demo_world))) = [(120, 40)]"
  by (simp add: run_defs demo_defs demo_cmdline demo_c_str)

lemma fail_run: "fst (main demo_env restore_fails_world) = Exit 1"
  by (simp add: run_defs demo_defs demo_cmdline demo_c_str restore_fails_world_def)

lemma fail_run_free:
  "WinptyFree \<in> set (new_events restore_fails_world (snd (main demo_env restore_fails_world)))"
  by (simp add: run_defs demo_defs demo_cmdline demo_c_str restore_fails_world_def new_events_def)



lemma pixel_run: "fst (main pixel_change_env demo_world) = Return 7"
  by (simp add: run_defs demo_defs demo_cmdline demo_c_str pixel_change_env_def)

lemma pixel_run_resizes:
  "resizes (w_trace (snd (main pixel_change_env demo_world))) = [(80, 25), (120, 40)]"
  by (simp add: run_defs demo_defs demo_cmdline demo_c_str pixel_change_env_def)

lemma piped_snapshot:
  "setRawTerminalMode demo_macros True True True piped_world
     = Next \<lparr>count = None, valid = [True, False, True],
              mode = [Some demo_termios, None, Some demo_termios]\<rparr>
         (step_world (setRawTerminalMode demo_macros True True True piped_world))"
  by (simp add: run_defs piped_world_def demo_world_def)

lemma piped_restore:
  "restored (new_events (step_world (setRawTerminalMode demo_macros True True True piped_world))
        (step_world (restoreTerminalMode demo_termios
           \<lparr>count = None, valid = [True, False, True],
              mode = [Some demo_termios, None, Some demo_termios]\<rparr>
           (step_world (setRawTerminalMode demo_macros True True True piped_world)))))
       = [(0, demo_termios), (2, demo_termios)]"
  by (simp add: run_defs piped_world_def demo_world_def new_events_def)

lemma resize_sequence:
  assumes "ws_col g1 = 80 \<and> ws_row g1 = 25 \<and> ws_col g2 = 120 \<and> ws_row g2 = 40
      \<and> probe k1 = g1 \<and> probe k2 = g1 \<and> probe k3 = g2 \<and> probe k4 = g2
      \<and> \<not> finished hasErr k1 \<and> \<not> finished hasErr k2 \<and> \<not> finished hasErr k3"
  shows "resizes (w_trace (step_world (mainLoop hasErr [k2, k3, k4] g1 w)))
          = resizes (w_trace w) @ [(120, 40)]
      \<and> resizes (w_trace (step_world (mainLoop hasErr [k1, k2, k3, k4] g1 w)))
          = resizes (w_trace w) @ [(120, 40)]"
proof -
  have ne: "g2 \<noteq> g1" using assms by auto
  have three: "resizes (w_trace (step_world (mainLoop hasErr [k2, k3, k4] g1 w')))
           = resizes (w_trace w') @ [(120, 40)]" for w'
    using assms ne
    by (simp add: mainLoop_more mainLoop_last emit_def resizes_append del: mainLoop.simps(2))
  have four: "resizes (w_trace (step_world (mainLoop hasErr [k1, k2, k3, k4] g1 w)))
           = resizes (w_trace w) @ [(120, 40)]"
    using assms three [of "emit [SelectWakeup, WakeupReset] w"]
    by (simp add: mainLoop_more [of hasErr k1] emit_def resizes_append del: mainLoop.simps(2))
  show ?thesis
    using three [of w] four by simp
qed

section \<open>The claims\<close>

text \<open>
  C1. Decoding the string produced by \<open>argvToCommandLine\<close> with the platform's
  argument-splitting algorithm gives back the argument vector, element for element.
  The arguments are C strings, so they hold no NUL byte; spaces, tabs, double quotes and
  runs of backslashes are all allowed.  Each argument is shorter than \<open>2^30\<close> bytes, so
  that the \<^verbatim>\<open>int\<close> that counts backslashes cannot overflow; within that bound the
  encoder always has a result.
\<close>

theorem argv_roundtrip:
  assumes "\<forall>a \<in> set argv. NUL \<notin> set a"
    and "\<forall>a \<in> set argv. length a < 2 ^ 30"
  shows "map_option commandLineToArgv (argvToCommandLine argv) = Some argv"
proof -
  have m: "map c_str argv = argv"
    using assms(1) by (simp add: c_str_id map_idI)
  have "\<forall>a \<in> set argv. length (c_str a) < 2 ^ 30"
    using assms by (simp add: c_str_id)
  then have "argvToCommandLine argv = Some (join_spaces (map encoded_arg argv))"
    by (rule argvToCommandLine_join)
  then show ?thesis
    using m by (simp add: commandLineToArgv_def split_go_join)
qed

theorem argv_roundtrip_witness:
  "list_all (\<lambda>a. NUL \<notin> set a)
      [''a b'', [CHR ''x'', TAB, CHR ''y''], [CHR ''q'', DQ, CHR ''r''], [BSL, BSL, DQ],
       [CHR ''d'', BSL, BSL], [CHR ''e'', SPC, BSL], []]
   \<and> list_all (\<lambda>a. length a < 2 ^ 30)
      [''a b'', [CHR ''x'', TAB, CHR ''y''], [CHR ''q'', DQ, CHR ''r''], [BSL, BSL, DQ],
       [CHR ''d'', BSL, BSL], [CHR ''e'', SPC, BSL], []]
   \<and> map_option commandLineToArgv (argvToCommandLine
        [''a b'', [CHR ''x'', TAB, CHR ''y''], [CHR ''q'', DQ, CHR ''r''], [BSL, BSL, DQ],
         [CHR ''d'', BSL, BSL], [CHR ''e'', SPC, BSL], []])
     = Some [''a b'', [CHR ''x'', TAB, CHR ''y''], [CHR ''q'', DQ, CHR ''r''], [BSL, BSL, DQ],
        [CHR ''d'', BSL, BSL], [CHR ''e'', SPC, BSL], []]"
  using argv_roundtrip [of "[''a b'', [CHR ''x'', TAB, CHR ''y''], [CHR ''q'', DQ, CHR ''r''],
    [BSL, BSL, DQ], [CHR ''d'', BSL, BSL], [CHR ''e'', SPC, BSL], []]"]
  by simp

text \<open>
  C2. For every argument vector (of C strings, each shorter than \<open>2^30\<close> bytes, so that
  the \<^verbatim>\<open>int\<close> that counts backslashes cannot overflow), \<open>argvToCommandLine\<close> has a
  result, and it is what the specification describes: the arguments joined with single
  spaces; an argument in double quotes exactly when it contains a space or a tab or is
  empty; a run of backslashes before a double quote doubled and the quote escaped with one
  more backslash; a run at the end of a quoted argument doubled before the closing quote;
  all other backslashes copied.
\<close>

theorem encoder_refines_spec:
  assumes "\<forall>a \<in> set argv. NUL \<notin> set a"
    and "\<forall>a \<in> set argv. length a < 2 ^ 30"
  shows "argvToCommandLine argv = Some (spec_encode argv)"
proof -
  have "encoded_arg a = spec_arg a" if "a \<in> set argv" for a
    using assms(1) that spec_arg_encoded [of a] by (simp add: c_str_id)
  then have e: "map encoded_arg argv = map spec_arg argv"
    by simp
  have "\<forall>a \<in> set argv. length (c_str a) < 2 ^ 30"
    using assms by (simp add: c_str_id)
  then have "argvToCommandLine argv = Some (join_spaces (map encoded_arg argv))"
    by (rule argvToCommandLine_join)
  then show ?thesis
    unfolding spec_encode_def e .
qed

theorem encoder_refines_spec_witness:
  "list_all (\<lambda>a. NUL \<notin> set a) [''a b'', [BSL, DQ], [CHR ''c'', BSL], [SPC, BSL], []]
   \<and> list_all (\<lambda>a. length a < 2 ^ 30) [''a b'', [BSL, DQ], [CHR ''c'', BSL], [SPC, BSL], []]
   \<and> argvToCommandLine [''a b'', [BSL, DQ], [CHR ''c'', BSL], [SPC, BSL], []]
       = Some (spec_encode [''a b'', [BSL, DQ], [CHR ''c'', BSL], [SPC, BSL], []])
   \<and> argvToCommandLine [''a b'', [BSL, DQ], [CHR ''c'', BSL], [SPC, BSL], []]
       = Some [DQ, CHR ''a'', SPC, CHR ''b'', DQ, SPC, BSL, BSL, BSL, DQ, SPC, CHR ''c'', BSL, SPC,
          DQ, SPC, BSL, BSL, DQ, SPC, DQ, DQ]"
proof -
  have "argvToCommandLine [''a b'', [BSL, DQ], [CHR ''c'', BSL], [SPC, BSL], []]
       = Some [DQ, CHR ''a'', SPC, CHR ''b'', DQ, SPC, BSL, BSL, BSL, DQ, SPC, CHR ''c'', BSL, SPC,
          DQ, SPC, BSL, BSL, DQ, SPC, DQ, DQ]"
    by (simp add: argvToCommandLine_def encode_one_def c_str_def quote_needed_def INT_MAX_def
        numeral_2_eq_2 numeral_3_eq_3)
  then show ?thesis
    using encoder_refines_spec [of "[''a b'', [BSL, DQ], [CHR ''c'', BSL], [SPC, BSL], []]"]
    by simp
qed




text \<open>
  C4. Invoked with \<open>--child-exec\<close> as first argument and at least one more argument, the
  tool does nothing but set the locale and call \<open>execvp\<close> on the named program with the
  remaining arguments: no wakeup primitive, no argument parsing, no session.  When
  \<open>execvp\<close> succeeds the process image is replaced; when it fails the tool prints an
  error with \<open>perror\<close> and exits with code 1.
\<close>

theorem child_exec_bypass:
  assumes "length (e_argv e) \<ge> 3" and "e_argv e ! 1 = ''--child-exec''"
  shows "main e w =
    (if e_exec_ok e
     then (Replaced (e_argv e ! 2) (drop 2 (e_argv e)),
           emit [Setlocale, Execvp (e_argv e ! 2) (drop 2 (e_argv e))] w)
     else (Exit 1,
           emit [Setlocale, Execvp (e_argv e ! 2) (drop 2 (e_argv e)),
                 Perror ''error: exec failed''] w))"
  using assms by (simp add: main_def Let_def emit_emit)

theorem child_exec_bypass_witness:
  "length (e_argv (demo_env\<lparr>e_argv := [''winpty'', ''--child-exec'', ''nonexistent-binary'']\<rparr>)) \<ge> 3
   \<and> e_argv (demo_env\<lparr>e_argv := [''winpty'', ''--child-exec'', ''nonexistent-binary'']\<rparr>) ! 1
       = ''--child-exec''
   \<and> main (demo_env\<lparr>e_argv := [''winpty'', ''--child-exec'', ''nonexistent-binary'']\<rparr>) demo_world
       = (Exit 1,
          emit [Setlocale, Execvp ''nonexistent-binary'' [''nonexistent-binary''],
                Perror ''error: exec failed''] demo_world)"
  using child_exec_bypass
    [of "demo_env\<lparr>e_argv := [''winpty'', ''--child-exec'', ''nonexistent-binary'']\<rparr>" demo_world]
  by (simp add: demo_env_def)

text \<open>
  C5. Every run in which the shutdown of a session begins (the session object is freed)
  has this trace: events of the set-up, none of them a pump start, a teardown event or a
  change of terminal attributes; the resize handler and the raw terminal mode; the start
  of the input and output pumps and, with an error channel, of the error pump; the events
  of the main loop, which are waits, resets and resize notifications only; and then the
  shutdown sequence in this order: the back-end session is freed; the input and output
  pumps are shut down (the call returns when the worker has stopped); the input and
  output channel handles are closed; with an error channel, its pump is shut down and its
  handle closed; the terminal modes are restored, stream by stream, on the streams that
  were requested and are terminals, to the attributes they had at the start.  When every
  restore succeeds, the exit code is queried, the child handle closed and \<open>main\<close>
  returns; when one fails, the run ends there with an error message and exit code 1.  So
  the session is closed strictly before every channel handle, the pumps started are
  exactly the pumps shut down, and every restore of a terminal mode comes strictly after
  the shutdown of every active pump.
\<close>

theorem shutdown_order:
  assumes "main e w = (r, w')"
    and "WinptyFree \<in> set (new_events w w')"
  shows "\<exists>pre raw hasErr loop n.
     w_trace w' = w_trace w @ pre @ [SigactionWinch] @ raw
        @ [StartPump InputPump, StartPump OutputPump]
        @ (if hasErr then [StartPump ErrorPump] else [])
        @ loop
        @ [WinptyFree]
        @ [ShutdownPump InputPump, ShutdownPump OutputPump, CloseHandle Conin, CloseHandle Conout]
        @ (if hasErr then [ShutdownPump ErrorPump, DeletePump ErrorPump, CloseHandle Conerr] else [])
        @ map (\<lambda>i. Tcsetattr i (w_attrs w (w_dev w i)))
              (take n (filter (\<lambda>i. [True, True, hasErr] ! i \<and> w_tty w i) [0, 1, 2]))
        @ (if is_return r then [GetExitCodeProcess, CloseHandle ChildProcess]
           else [Perror ''error restoring terminal mode''])
     \<and> list_all setup_event pre \<and> list_all is_Tcsetattr raw \<and> list_all loop_event loop
     \<and> (if is_return r
         then r = Return (case e_exit_code e of Some x \<Rightarrow> x | None \<Rightarrow> 1) \<and> n = 3
         else r = Exit 1 \<and> 0 < n)"
  using assms by (rule main_shutdown_trace)

theorem shutdown_order_witness:
  "main (demo_env\<lparr>e_argv := [''winpty'', ''-Xconerr'', ''cmd'']\<rparr>) demo_world
     = (Return 7, snd (main (demo_env\<lparr>e_argv := [''winpty'', ''-Xconerr'', ''cmd'']\<rparr>) demo_world))
   \<and> WinptyFree \<in> set (new_events demo_world
        (snd (main (demo_env\<lparr>e_argv := [''winpty'', ''-Xconerr'', ''cmd'']\<rparr>) demo_world)))
   \<and> (\<exists>pre raw hasErr loop n.
     w_trace (snd (main (demo_env\<lparr>e_argv := [''winpty'', ''-Xconerr'', ''cmd'']\<rparr>) demo_world))
      = w_trace demo_world @ pre @ [SigactionWinch] @ raw
        @ [StartPump InputPump, StartPump OutputPump]
        @ (if hasErr then [StartPump ErrorPump] else [])
        @ loop
        @ [WinptyFree]
        @ [ShutdownPump InputPump, ShutdownPump OutputPump, CloseHandle Conin, CloseHandle Conout]
        @ (if hasErr then [ShutdownPump ErrorPump, DeletePump ErrorPump, CloseHandle Conerr] else [])
        @ map (\<lambda>i. Tcsetattr i (w_attrs demo_world (w_dev demo_world i)))
              (take n (filter (\<lambda>i. [True, True, hasErr] ! i \<and> w_tty demo_world i) [0, 1, 2]))
        @ (if is_return (Return 7) then [GetExitCodeProcess, CloseHandle ChildProcess]
           else [Perror ''error restoring terminal mode''])
     \<and> list_all setup_event pre \<and> list_all is_Tcsetattr raw \<and> list_all loop_event loop
     \<and> (if is_return (Return 7)
         then Return 7 = Return (case e_exit_code (demo_env\<lparr>e_argv := [''winpty'', ''-Xconerr'', ''cmd'']\<rparr>) of
                                   Some x \<Rightarrow> x | None \<Rightarrow> 1) \<and> n = 3
         else Return 7 = Exit 1 \<and> 0 < n))
   \<and> main demo_env restore_fails_world = (Exit 1, snd (main demo_env restore_fails_world))
   \<and> WinptyFree \<in> set (new_events restore_fails_world (snd (main demo_env restore_fails_world)))
   \<and> (\<exists>pre raw hasErr loop n.
     w_trace (snd (main demo_env restore_fails_world))
      = w_trace restore_fails_world @ pre @ [SigactionWinch] @ raw
        @ [StartPump InputPump, StartPump OutputPump]
        @ (if hasErr then [StartPump ErrorPump] else [])
        @ loop
        @ [WinptyFree]
        @ [ShutdownPump InputPump, ShutdownPump OutputPump, CloseHandle Conin, CloseHandle Conout]
        @ (if hasErr then [ShutdownPump ErrorPump, DeletePump ErrorPump, CloseHandle Conerr] else [])
        @ map (\<lambda>i. Tcsetattr i (w_attrs restore_fails_world (w_dev restore_fails_world i)))
              (take n (filter (\<lambda>i. [True, True, hasErr] ! i \<and> w_tty restore_fails_world i) [0, 1, 2]))
        @ (if is_return (Exit 1) then [GetExitCodeProcess, CloseHandle ChildProcess]
           else [Perror ''error restoring terminal mode''])
     \<and> list_all setup_event pre \<and> list_all is_Tcsetattr raw \<and> list_all loop_event loop
     \<and> (if is_return (Exit 1)
         then Exit 1 = Return (case e_exit_code demo_env of Some x \<Rightarrow> x | None \<Rightarrow> 1) \<and> n = 3
         else Exit 1 = Exit 1 \<and> 0 < n))"
proof -
  have a: "main (demo_env\<lparr>e_argv := [''winpty'', ''-Xconerr'', ''cmd'']\<rparr>) demo_world
     = (Return 7, snd (main (demo_env\<lparr>e_argv := [''winpty'', ''-Xconerr'', ''cmd'']\<rparr>) demo_world))"
    using demo_run_conerr by (simp add: prod_eq_iff)
  have c: "main demo_env restore_fails_world = (Exit 1, snd (main demo_env restore_fails_world))"
    using fail_run by (simp add: prod_eq_iff)
  show ?thesis
    by (rule conjI [OF a conjI [OF demo_run_conerr_free
          conjI [OF shutdown_order [OF a demo_run_conerr_free]
          conjI [OF c conjI [OF fail_run_free shutdown_order [OF c fail_run_free]]]]]])
qed

text \<open>
  C6 (amended). In an iteration of the main loop a resize is forwarded exactly when the
  probed \<open>winsize\<close> differs from the cached one in any of its fields, the pixel sizes
  included, and the cache then holds the probed value.  For detections A, A, B, B, where
  A has 80 columns and 25 rows, B has 120 columns and 40 rows and equal detections are
  equal as whole \<open>winsize\<close> values, the back end gets exactly one resize notification,
  with (120, 40); this holds when the first detection is the cached start-up value
  followed by three iterations, and when all four are iterations starting from the cached
  A.
\<close>

theorem resize_forwarding:
  "mainLoop hasErr (k # ks) sz w =
     (let w1 = emit ([SelectWakeup, WakeupReset]
                     @ (if probe k \<noteq> sz then [SetSize (ws_col (probe k)) (ws_row (probe k))]
                        else [])) w
      in if finished hasErr k then Next (probe k) w1 else mainLoop hasErr ks (probe k) w1)
   \<and> (ws_col g1 = 80 \<and> ws_row g1 = 25 \<and> ws_col g2 = 120 \<and> ws_row g2 = 40
      \<and> probe k1 = g1 \<and> probe k2 = g1 \<and> probe k3 = g2 \<and> probe k4 = g2
      \<and> \<not> finished hasErr k1 \<and> \<not> finished hasErr k2 \<and> \<not> finished hasErr k3 \<longrightarrow>
        resizes (w_trace (step_world (mainLoop hasErr [k2, k3, k4] g1 w)))
          = resizes (w_trace w) @ [(120, 40)]
      \<and> resizes (w_trace (step_world (mainLoop hasErr [k1, k2, k3, k4] g1 w)))
          = resizes (w_trace w) @ [(120, 40)])"
  using mainLoop_step [of hasErr k ks sz w]
    resize_sequence [of g1 g2 k1 k2 k3 k4 hasErr w]
  by blast

theorem resize_forwarding_witness:
  "ws_col (geom 80 25 0 0) = 80 \<and> ws_row (geom 80 25 0 0) = 25
   \<and> ws_col (geom 120 40 0 0) = 120 \<and> ws_row (geom 120 40 0 0) = 40
   \<and> \<not> finished False (tick (geom 80 25 0 0) False)
   \<and> \<not> finished False (tick (geom 120 40 0 0) False)
   \<and> resizes (w_trace (step_world (mainLoop False
         [tick (geom 80 25 0 0) False, tick (geom 120 40 0 0) False, tick (geom 120 40 0 0) True]
         (geom 80 25 0 0) demo_world)))
       = resizes (w_trace demo_world) @ [(120, 40)]
   \<and> resizes (w_trace (step_world (mainLoop False
         [tick (geom 80 25 0 0) False, tick (geom 80 25 0 0) False,
          tick (geom 120 40 0 0) False, tick (geom 120 40 0 0) True]
         (geom 80 25 0 0) demo_world)))
       = resizes (w_trace demo_world) @ [(120, 40)]
   \<and> resizes (w_trace (snd (main demo_env demo_world))) = [(120, 40)]"
proof -
  have h: "ws_col (geom 80 25 0 0) = 80 \<and> ws_row (geom 80 25 0 0) = 25
      \<and> ws_col (geom 120 40 0 0) = 120 \<and> ws_row (geom 120 40 0 0) = 40
      \<and> probe (tick (geom 80 25 0 0) False) = geom 80 25 0 0
      \<and> probe (tick (geom 80 25 0 0) False) = geom 80 25 0 0
      \<and> probe (tick (geom 120 40 0 0) False) = geom 120 40 0 0
      \<and> probe (tick (geom 120 40 0 0) True) = geom 120 40 0 0
      \<and> \<not> finished False (tick (geom 80 25 0 0) False)
      \<and> \<not> finished False (tick (geom 80 25 0 0) False)
      \<and> \<not> finished False (tick (geom 120 40 0 0) False)"
    by (simp add: geom_def tick_def finished_def)
  show ?thesis
    using h demo_resizes
      resize_forwarding [of False "tick (geom 80 25 0 0) False" "[]" "geom 80 25 0 0" demo_world
        "geom 80 25 0 0" "geom 120 40 0 0" "tick (geom 80 25 0 0) False"
        "tick (geom 80 25 0 0) False" "tick (geom 120 40 0 0) False" "tick (geom 120 40 0 0) True"]
    by blast
qed

text \<open>
  C6 as the specification states it, with a geometry being the pair of columns and rows,
  fails for the run of \<^verbatim>\<open>winpty cmd\<close> on a terminal whose pixel sizes change between
  the first two detections: the detected geometries are (80, 25), (80, 25), (120, 40),
  (120, 40), and the back end gets two resize notifications, (80, 25) and (120, 40).
\<close>

theorem pixel_change_counterexample:
  "e_initial_probe pixel_change_env = Some (geom 80 25 0 0)
   \<and> e_wakeups pixel_change_env
       = [tick (geom 80 25 640 400) False, tick (geom 120 40 960 640) False,
          tick (geom 120 40 960 640) True]
   \<and> (ws_col (geom 80 25 0 0), ws_row (geom 80 25 0 0)) = (80, 25)
   \<and> (ws_col (geom 80 25 640 400), ws_row (geom 80 25 640 400)) = (80, 25)
   \<and> (ws_col (geom 120 40 960 640), ws_row (geom 120 40 960 640)) = (120, 40)
   \<and> fst (main pixel_change_env demo_world) = Return 7
   \<and> resizes (w_trace (snd (main pixel_change_env demo_world))) = [(80, 25), (120, 40)]"
proof -
  have a: "e_initial_probe pixel_change_env = Some (geom 80 25 0 0)"
    by (simp add: pixel_change_env_def demo_env_def)
  have b: "e_wakeups pixel_change_env
       = [tick (geom 80 25 640 400) False, tick (geom 120 40 960 640) False,
          tick (geom 120 40 960 640) True]"
    by (simp add: pixel_change_env_def)
  have c: "(ws_col (geom 80 25 0 0), ws_row (geom 80 25 0 0)) = (80, 25)"
    by (simp add: geom_def)
  have d: "(ws_col (geom 80 25 640 400), ws_row (geom 80 25 640 400)) = (80, 25)"
    by (simp add: geom_def)
  have e: "(ws_col (geom 120 40 960 640), ws_row (geom 120 40 960 640)) = (120, 40)"
    by (simp add: geom_def)
  show ?thesis
    by (rule conjI [OF a conjI [OF b conjI [OF c conjI [OF d conjI [OF e
          conjI [OF pixel_run pixel_run_resizes]]]]]])
qed

text \<open>
  C7. Restoring a snapshot sets attributes only on streams whose validity flag is true,
  and what it sets are the attributes the snapshot holds for that stream; this holds for
  every snapshot and every way the restore ends.  A snapshot that
  \<open>setRawTerminalMode\<close> returns has the flag of a stream true exactly when the stream
  was requested and is a terminal, and then holds the attributes the terminal had; a
  requested stream that is not a terminal is recorded as not valid, which happens only
  when non-tty operation is allowed.
\<close>

theorem snapshot_validity:
  "set (restored (new_events w (step_world (restoreTerminalMode junk original w))))
     \<subseteq> {(i, t). i < 3 \<and> valid original ! i
            \<and> t = (case mode original ! i of Some t \<Rightarrow> t | None \<Rightarrow> junk)}
   \<and> (setRawTerminalMode m allowNonTtys setStdout setStderr w = Next saved w' \<longrightarrow>
        (\<forall>i < 3. valid saved ! i = ([True, setStdout, setStderr] ! i \<and> w_tty w i))
      \<and> (\<forall>i < 3. valid saved ! i \<longrightarrow> mode saved ! i = Some (w_attrs w (w_dev w i)))
      \<and> (\<forall>i < 3. [True, setStdout, setStderr] ! i \<and> \<not> w_tty w i \<longrightarrow> allowNonTtys))"
proof -
  obtain es where es: "w_trace (step_world (restore_loop junk [0, 1, 2] original w)) = w_trace w @ es"
    and sub: "set (restored es) \<subseteq> {(i, t). i \<in> set [0, 1, 2] \<and> valid original ! i
            \<and> t = (case mode original ! i of Some t \<Rightarrow> t | None \<Rightarrow> junk)}"
    using restore_loop_events [of junk "[0, 1, 2]" original w] by blast
  have ne: "new_events w (step_world (restoreTerminalMode junk original w)) = es"
    unfolding new_events_def restoreTerminalMode_def es by simp
  have first: "set (restored (new_events w (step_world (restoreTerminalMode junk original w))))
     \<subseteq> {(i, t). i < 3 \<and> valid original ! i
            \<and> t = (case mode original ! i of Some t \<Rightarrow> t | None \<Rightarrow> junk)}"
    unfolding ne using sub by auto
  have second: "(\<forall>i < 3. valid saved ! i = ([True, setStdout, setStderr] ! i \<and> w_tty w i))
      \<and> (\<forall>i < 3. valid saved ! i \<longrightarrow> mode saved ! i = Some (w_attrs w (w_dev w i)))
      \<and> (\<forall>i < 3. [True, setStdout, setStderr] ! i \<and> \<not> w_tty w i \<longrightarrow> allowNonTtys)"
    if sr: "setRawTerminalMode m allowNonTtys setStdout setStderr w = Next saved w'"
  proof -
    let ?ret = "\<lparr>count = None, valid = [True, setStdout, setStderr], mode = [None, None, None]\<rparr>"
    from setRawTerminalMode_Next [OF sr] obtain w1 where
      c: "capture_loop allowNonTtys [0, 1, 2] ?ret w = Next saved w1" by blast
    have s3: "set [0, 1, 2] = {i. i < (3::nat)}" by auto
    from capture_loop_Next [OF c] have
      vj: "\<forall>j < 3. valid saved ! j = (if j \<in> set [0, 1, 2] then [True, setStdout, setStderr] ! j \<and> w_tty w j
                                    else [True, setStdout, setStderr] ! j)"
      and mj: "\<forall>j < 3. mode saved ! j = (if j \<in> set [0, 1, 2] \<and> [True, setStdout, setStderr] ! j \<and> w_tty w j
                              then Some (w_attrs w (w_dev w j)) else [None, None, None] ! j)"
      and aj: "\<forall>j \<in> set [0, 1, 2]. [True, setStdout, setStderr] ! j \<and> \<not> w_tty w j \<longrightarrow> allowNonTtys"
      by simp_all
    show ?thesis
      using vj mj aj unfolding s3 by auto
  qed
  show ?thesis using first second by blast
qed

theorem snapshot_validity_witness:
  "setRawTerminalMode demo_macros True True True piped_world
     = Next \<lparr>count = None, valid = [True, False, True],
              mode = [Some demo_termios, None, Some demo_termios]\<rparr>
         (step_world (setRawTerminalMode demo_macros True True True piped_world))
   \<and> valid \<lparr>count = None, valid = [True, False, True],
              mode = [Some demo_termios, None, Some demo_termios]\<rparr> ! 1
       = ([True, True, True] ! 1 \<and> w_tty piped_world 1)
   \<and> restored (new_events (step_world (setRawTerminalMode demo_macros True True True piped_world))
        (step_world (restoreTerminalMode demo_termios
           \<lparr>count = None, valid = [True, False, True],
              mode = [Some demo_termios, None, Some demo_termios]\<rparr>
           (step_world (setRawTerminalMode demo_macros True True True piped_world)))))
       = [(0, demo_termios), (2, demo_termios)]"
proof -
  let ?snap = "\<lparr>count = None, valid = [True, False, True],
                  mode = [Some demo_termios, None, Some demo_termios]\<rparr>"
  let ?w' = "step_world (setRawTerminalMode demo_macros True True True piped_world)"
  have a: "setRawTerminalMode demo_macros True True True piped_world = Next ?snap ?w'"
    by (rule piped_snapshot)
  have "\<forall>i < 3. valid ?snap ! i = ([True, True, True] ! i \<and> w_tty piped_world i)"
    using a snapshot_validity [of piped_world _ _ demo_macros True True True ?snap ?w']
    by blast
  then have "(1::nat) < 3 \<longrightarrow> valid ?snap ! 1 = ([True, True, True] ! 1 \<and> w_tty piped_world 1)"
    by (rule spec)
  then have b: "valid ?snap ! 1 = ([True, True, True] ! 1 \<and> w_tty piped_world 1)"
    by simp
  show ?thesis
    by (rule conjI [OF a conjI [OF b piped_restore]])
qed

text \<open>
  C8 (amended). Invoked with no arguments, the tool prints the usage text with
  \<open>printf\<close>, that is on standard output, and exits with code 1; nothing is written to
  standard error.  The wakeup primitive is created before the arguments are parsed, so
  this supposes that its creation succeeds.
\<close>

theorem no_arguments_usage:
  assumes "length (e_argv e) \<le> 1" and "e_wakeup_ok e"
  shows "main e w =
    (Exit 1,
     emit ([Setlocale, NewWakeupFd] @
           [Printf Stdout (''Usage: %s [options] [--] program [args]'' @ [CHR 0x0A])
              [Str (if length (e_argv e) \<ge> 1 then e_argv e ! 0 else ''<program>'')],
            Printf Stdout [CHR 0x0A] [],
            Printf Stdout (''Options:'' @ [CHR 0x0A]) [],
            Printf Stdout (''  -h, --help  Show this help message'' @ [CHR 0x0A]) [],
            Printf Stdout (''  --mouse     Enable terminal mouse input'' @ [CHR 0x0A]) [],
            Printf Stdout (''  --showkey   Dump STDIN escape sequences'' @ [CHR 0x0A]) [],
            Printf Stdout (''  --version   Show the winpty version number'' @ [CHR 0x0A]) []]) w)
    \<and> output_on Stderr (new_events w (snd (main e w))) = []"
proof -
  have "\<not> (length (e_argv e) \<ge> 3 \<and> e_argv e ! 1 = ''--child-exec'')"
    using assms(1) by simp
  then have m: "main e w =
    (Exit 1,
     emit ([Setlocale, NewWakeupFd] @
           [Printf Stdout (''Usage: %s [options] [--] program [args]'' @ [CHR 0x0A])
              [Str (if length (e_argv e) \<ge> 1 then e_argv e ! 0 else ''<program>'')],
            Printf Stdout [CHR 0x0A] [],
            Printf Stdout (''Options:'' @ [CHR 0x0A]) [],
            Printf Stdout (''  -h, --help  Show this help message'' @ [CHR 0x0A]) [],
            Printf Stdout (''  --mouse     Enable terminal mouse input'' @ [CHR 0x0A]) [],
            Printf Stdout (''  --showkey   Dump STDIN escape sequences'' @ [CHR 0x0A]) [],
            Printf Stdout (''  --version   Show the winpty version number'' @ [CHR 0x0A]) []]) w)"
    using assms by (simp add: main_def new_wakeup_def Let_def parse_no_args usage_def emit_emit)
  show ?thesis
    unfolding m by (simp add: new_events_def emit_def output_on_def)
qed

theorem no_arguments_usage_witness:
  "length (e_argv (demo_env\<lparr>e_argv := [''winpty'']\<rparr>)) \<le> 1
   \<and> e_wakeup_ok (demo_env\<lparr>e_argv := [''winpty'']\<rparr>)
   \<and> fst (main (demo_env\<lparr>e_argv := [''winpty'']\<rparr>) demo_world) = Exit 1
   \<and> output_on Stderr (new_events demo_world (snd (main (demo_env\<lparr>e_argv := [''winpty'']\<rparr>) demo_world)))
       = []"
proof -
  have a: "length (e_argv (demo_env\<lparr>e_argv := [''winpty'']\<rparr>)) \<le> 1"
    and b: "e_wakeup_ok (demo_env\<lparr>e_argv := [''winpty'']\<rparr>)"
    by (simp_all add: demo_env_def)
  note t = no_arguments_usage [OF a b, of demo_world]
  from t have c: "fst (main (demo_env\<lparr>e_argv := [''winpty'']\<rparr>) demo_world) = Exit 1"
    by (simp only: fst_conv)
  from t have d: "output_on Stderr
      (new_events demo_world (snd (main (demo_env\<lparr>e_argv := [''winpty'']\<rparr>) demo_world))) = []"
    by (rule conjunct2)
  show ?thesis
    by (rule conjI [OF a conjI [OF b conjI [OF c d]]])
qed

text \<open>
  C8 as the specification states it, with the usage text on standard error, fails for
  \<^verbatim>\<open>winpty\<close> run without arguments: the run exits with code 1, writes nothing to
  standard error, and the usage text is what it writes to standard output.
\<close>

theorem usage_on_stderr_counterexample:
  "fst (main (demo_env\<lparr>e_argv := [''winpty'']\<rparr>) demo_world) = Exit 1
   \<and> output_on Stderr (w_trace (snd (main (demo_env\<lparr>e_argv := [''winpty'']\<rparr>) demo_world))) = []
   \<and> output_on Stdout (w_trace (snd (main (demo_env\<lparr>e_argv := [''winpty'']\<rparr>) demo_world)))
       = [Printf Stdout (''Usage: %s [options] [--] program [args]'' @ [CHR 0x0A]) [Str ''winpty''],
          Printf Stdout [CHR 0x0A] [],
          Printf Stdout (''Options:'' @ [CHR 0x0A]) [],
          Printf Stdout (''  -h, --help  Show this help message'' @ [CHR 0x0A]) [],
          Printf Stdout (''  --mouse     Enable terminal mouse input'' @ [CHR 0x0A]) [],
          Printf Stdout (''  --showkey   Dump STDIN escape sequences'' @ [CHR 0x0A]) [],
          Printf Stdout (''  --version   Show the winpty version number'' @ [CHR 0x0A]) []]"
  by (simp add: run_defs demo_defs output_on_def)

text \<open>
  C9. As long as the size computations do not wrap around in \<^verbatim>\<open>size_t\<close>: the buffer of
  \<open>heapMbsToWcs\<close> has twice the input length plus one elements, and the helper fails
  its assertion exactly when the conversion reports an error or fills the whole buffer;
  the buffer of \<open>heapWcsToMbs\<close> has three times the input length plus one elements, and
  the helper returns no buffer (NULL) exactly when the conversion reports an error or
  fills the whole buffer; \<open>wcsToMbs\<close> then returns the empty string, and otherwise the
  converted text.
\<close>

theorem conversion_helpers:
  assumes "length text * 2 + 1 < 2 ^ w" and "length wtext * 3 + 1 < 2 ^ w"
  shows "(\<forall>buf. heapMbsToWcs w mbs text = Inr buf \<longrightarrow>
            capacity buf = length text * 2 + 1 \<and> contents buf = snd (mbs text (capacity buf))
            \<and> fst (mbs text (capacity buf)) \<noteq> size_t_minus_one w
            \<and> fst (mbs text (capacity buf)) < capacity buf)
       \<and> (heapMbsToWcs w mbs text = Inl AssertionFailed \<longleftrightarrow>
            fst (mbs text (length text * 2 + 1)) = size_t_minus_one w
            \<or> fst (mbs text (length text * 2 + 1)) \<ge> length text * 2 + 1)
       \<and> (\<forall>buf. heapWcsToMbs w wcs wtext = Some buf \<longrightarrow>
            capacity buf = length wtext * 3 + 1 \<and> contents buf = snd (wcs wtext (capacity buf))
            \<and> wcsToMbs w wcs wtext = c_str (contents buf))
       \<and> (heapWcsToMbs w wcs wtext = None \<longleftrightarrow>
            fst (wcs wtext (length wtext * 3 + 1)) = size_t_minus_one w
            \<or> fst (wcs wtext (length wtext * 3 + 1)) \<ge> length wtext * 3 + 1)
       \<and> (heapWcsToMbs w wcs wtext = None \<longrightarrow> wcsToMbs w wcs wtext = [])"
proof -
  have m: "(length text * 2 + 1) mod 2 ^ w = length text * 2 + 1"
    using assms(1) by simp
  have n: "(length wtext * 3 + 1) mod 2 ^ w = length wtext * 3 + 1"
    using assms(2) by simp
  have a: "heapMbsToWcs w mbs text =
      (if fst (mbs text (length text * 2 + 1)) \<noteq> size_t_minus_one w
          \<and> fst (mbs text (length text * 2 + 1)) < length text * 2 + 1
       then Inr \<lparr>capacity = length text * 2 + 1, contents = snd (mbs text (length text * 2 + 1))\<rparr>
       else Inl AssertionFailed)"
    unfolding heapMbsToWcs_def m by (simp add: Let_def split: prod.splits)
  have b: "heapWcsToMbs w wcs wtext =
      (if fst (wcs wtext (length wtext * 3 + 1)) = size_t_minus_one w
          \<or> fst (wcs wtext (length wtext * 3 + 1)) \<ge> length wtext * 3 + 1
       then None
       else Some \<lparr>capacity = length wtext * 3 + 1, contents = snd (wcs wtext (length wtext * 3 + 1))\<rparr>)"
    unfolding heapWcsToMbs_def n by (simp add: Let_def split: prod.splits)
  show ?thesis
    unfolding wcsToMbs_def a b by (auto simp: not_less)
qed

theorem conversion_helpers_witness:
  "length ''abc'' * 2 + 1 < (2::nat) ^ 32
   \<and> length (widen ''abc'') * 3 + 1 < (2::nat) ^ 32
   \<and> heapMbsToWcs 32 ascii_mbstowcs ''abc'' = Inr \<lparr>capacity = 7, contents = widen ''abc''\<rparr>
   \<and> heapWcsToMbs 32 ascii_wcstombs (widen ''abc'') = Some \<lparr>capacity = 10, contents = ''abc''\<rparr>
   \<and> heapMbsToWcs 32 (\<lambda>s n. (2 ^ 32 - 1, [])) ''abc'' = Inl AssertionFailed
   \<and> heapWcsToMbs 32 (\<lambda>s n. (2 ^ 32 - 1, [])) (widen ''abc'') = None
   \<and> wcsToMbs 32 (\<lambda>s n. (2 ^ 32 - 1, [])) (widen ''abc'') = []"
proof -
  have a: "length ''abc'' * 2 + 1 < (2::nat) ^ 32" by simp
  have b: "length (widen ''abc'') * 3 + 1 < (2::nat) ^ 32" by (simp add: widen_def)
  have c: "heapMbsToWcs 32 ascii_mbstowcs ''abc'' = Inr \<lparr>capacity = 7, contents = widen ''abc''\<rparr>"
    by (simp add: heapMbsToWcs_def ascii_mbstowcs_def size_t_minus_one_def widen_def)
  have d: "heapWcsToMbs 32 ascii_wcstombs (widen ''abc'') = Some \<lparr>capacity = 10, contents = ''abc''\<rparr>"
    by (simp add: heapWcsToMbs_def ascii_wcstombs_def size_t_minus_one_def widen_def char_of_def
        bit_Suc_0_iff)
  have e: "heapMbsToWcs 32 (\<lambda>s n. (2 ^ 32 - 1, [])) ''abc'' = Inl AssertionFailed
      \<and> heapWcsToMbs 32 (\<lambda>s n. (2 ^ 32 - 1, [])) (widen ''abc'') = None
      \<and> wcsToMbs 32 (\<lambda>s n. (2 ^ 32 - 1, [])) (widen ''abc'') = []"
    using conversion_helpers [OF a b, of "\<lambda>s n. (2 ^ 32 - 1, [])" "\<lambda>s n. (2 ^ 32 - 1, [])"]
    by (simp add: size_t_minus_one_def)
  show ?thesis
    by (rule conjI [OF a conjI [OF b conjI [OF c conjI [OF d e]]]])
qed

text \<open>
  C10. The resize test of the main loop compares the whole \<^verbatim>\<open>winsize\<close> structure: a
  probe that differs from the cached value only in the pixel-size fields still sends a
  resize notification, and the notification carries the columns and rows only, which are
  the ones already cached.
\<close>

theorem pixel_only_resize:
  assumes "ws_col (probe k) = ws_col sz" and "ws_row (probe k) = ws_row sz"
    and "ws_xpixel (probe k) \<noteq> ws_xpixel sz \<or> ws_ypixel (probe k) \<noteq> ws_ypixel sz"
  shows "mainLoop hasErr (k # ks) sz w =
           (let w1 = emit [SelectWakeup, WakeupReset, SetSize (ws_col sz) (ws_row sz)] w
            in if finished hasErr k then Next (probe k) w1 else mainLoop hasErr ks (probe k) w1)"
proof -
  have "probe k \<noteq> sz" using assms(3) by auto
  then show ?thesis
    using assms(1,2) by (simp add: mainLoop_step Let_def del: mainLoop.simps(2))
qed

theorem pixel_only_resize_witness:
  "ws_col (probe (tick (geom 80 25 640 400) True)) = ws_col (geom 80 25 0 0)
   \<and> ws_row (probe (tick (geom 80 25 640 400) True)) = ws_row (geom 80 25 0 0)
   \<and> ws_xpixel (probe (tick (geom 80 25 640 400) True)) \<noteq> ws_xpixel (geom 80 25 0 0)
   \<and> mainLoop False [tick (geom 80 25 640 400) True] (geom 80 25 0 0) demo_world
       = Next (geom 80 25 640 400)
           (emit [SelectWakeup, WakeupReset, SetSize 80 25] demo_world)"
proof -
  have a: "ws_col (probe (tick (geom 80 25 640 400) True)) = ws_col (geom 80 25 0 0)"
    and b: "ws_row (probe (tick (geom 80 25 640 400) True)) = ws_row (geom 80 25 0 0)"
    and c: "ws_xpixel (probe (tick (geom 80 25 640 400) True)) \<noteq> ws_xpixel (geom 80 25 0 0)"
    by (simp_all add: tick_def geom_def)
  have d: "ws_xpixel (probe (tick (geom 80 25 640 400) True)) \<noteq> ws_xpixel (geom 80 25 0 0)
         \<or> ws_ypixel (probe (tick (geom 80 25 640 400) True)) \<noteq> ws_ypixel (geom 80 25 0 0)"
    using c by simp
  have "mainLoop False [tick (geom 80 25 640 400) True] (geom 80 25 0 0) demo_world
       = Next (geom 80 25 640 400)
           (emit [SelectWakeup, WakeupReset, SetSize 80 25] demo_world)"
    using pixel_only_resize [OF a b d, of False "[]" demo_world]
    by (simp add: Let_def finished_def tick_def geom_def)
  then show ?thesis
    using a b c by (intro conjI)
qed

end
